theory Spec2Isabelle
  imports Main
begin

section \<open>The configuration loader of osde2e (pkg/common/load/load.go)\<close>

text \<open>
  The loader fills a Go struct from four sources in turn: the \<open>default\<close> struct tags,
  packaged YAML documents, a custom YAML file and the process environment. It walks the
  struct with package \<open>reflect\<close>. The development below embeds the functions of
  \<open>load.go\<close> over an explicit model of the values reflect sees and of the world the
  loader reads (environment, packaged files, disk, temporary directories, random numbers).
\<close>

subsection \<open>Values as package reflect sees them\<close>

text \<open>The kinds of \<open>reflect.Kind\<close>, in the order of the Go declaration.\<close>

datatype kind = InvalidK | BoolK | IntK | Int8K | Int16K | Int32K | Int64K | UintK | Uint8K
  | Uint16K | Uint32K | Uint64K | UintptrK | Float32K | Float64K | Complex64K | Complex128K
  | ArrayK | ChanK | FuncK | InterfaceK | MapK | PtrK | SliceK | StringK | StructK
  | UnsafePointerK

text \<open>
  A value is a string, a boolean, an \<open>int\<close>, an \<open>int64\<close>, a slice of strings or a
  struct; \<open>VOpaque k n\<close> stands for a value of any other type (an unsigned integer, a
  float, a map, an array, a slice whose elements are not strings, ...), of kind \<open>k\<close>,
  with \<open>n\<close> naming its content. A struct is the list of its fields in declaration order;
  every field carries its name, its struct tag (the key/value pairs of the tag string, in
  order) and its current value. Fields are the exported, settable ones.
\<close>

datatype val =
    VString string
  | VBool bool
  | VInt int
  | VInt64 int
  | VSlice "string list"
  | VStruct "field list"
  | VOpaque kind nat
and field = StructField (Name: string) (Tag: "(string \<times> string) list") (Value: val)

fun kind_of :: "val \<Rightarrow> kind" where
  "kind_of (VString s) = StringK"
| "kind_of (VBool b) = BoolK"
| "kind_of (VInt i) = IntK"
| "kind_of (VInt64 i) = Int64K"
| "kind_of (VSlice xs) = SliceK"
| "kind_of (VStruct fs) = StructK"
| "kind_of (VOpaque k n) = k"

text \<open>
  The \<open>interface{}\<close> argument of \<open>IntoObject\<close> holds a value of some type: a value
  held directly, a nil pointer, or a pointer to a value. (A value held directly whose
  kind is pointer, \<open>VOpaque PtrK n\<close>, is a pointer the model does not look into: it
  does not point to a struct. The nil interface, which holds no value and has no type, is
  not represented.)
\<close>

datatype object = NonPointer val | NilPointer | Pointer val

text \<open>
  What a call ends with: \<open>nil\<close>, an error with its message, a panic (of package
  reflect) or the end of the process (\<open>log.Fatalf\<close>).
\<close>

datatype result = NoError | Error string | Panic string | Exit string

fun is_abort :: "result \<Rightarrow> bool" where
  "is_abort (Panic m) = True"
| "is_abort (Exit m) = True"
| "is_abort r = False"

subsection \<open>The world the loader reads\<close>

text \<open>
  A YAML document, as far as the loader depends on it: a tree whose inner nodes are
  mappings from keys to nodes and whose leaves are values. The bytes of a file either
  parse to such a tree or are malformed (with the parser's message).
\<close>

datatype ynode = YLeaf val | YMap "(string \<times> ynode) list"

datatype bytes = Malformed string | Yaml ynode

datatype entry = Regular bytes | Unreadable string

record world =
  environ :: "string \<rightharpoonup> string"
  workdir :: "string + string"
  packaged :: "string \<rightharpoonup> entry"
  disk :: "string \<rightharpoonup> entry"
  tempdir_results :: "nat \<Rightarrow> string + string"
  tempdir_calls :: nat
  rand_ints :: "nat \<Rightarrow> nat"
  rand_calls :: nat

text \<open>\<open>os.Getenv\<close>: the value of the variable, empty when it is not set.\<close>

definition Getenv :: "world \<Rightarrow> string \<Rightarrow> string" where
  "Getenv w key = (case environ w key of None \<Rightarrow> [] | Some v \<Rightarrow> v)"

text \<open>
  \<open>ioutil.TempDir("", "osde2e")\<close>: the outcome (an error message or the path of the
  new directory) is the world's; every call consumes one outcome.
\<close>

definition TempDir :: "world \<Rightarrow> (string + string) \<times> world" where
  "TempDir w = (tempdir_results w (tempdir_calls w), w\<lparr>tempdir_calls := Suc (tempdir_calls w)\<rparr>)"

text \<open>
  Modelled from the spec: \<open>util.RandomStr\<close> is not among the sources. The specification
  says it "generates a random alphanumeric string of length N"; here every character is
  drawn from the alphanumeric characters with the next random number of the world.
\<close>

definition alphanumeric :: string where
  "alphanumeric = ''abcdefghijklmnopqrstuvwxyzABCDEFGHIJKLMNOPQRSTUVWXYZ0123456789''"

definition RandomStr :: "world \<Rightarrow> int \<Rightarrow> string \<times> world" where
  "RandomStr w len =
     (map (\<lambda>i. alphanumeric ! (rand_ints w (rand_calls w + i) mod 62)) [0..<nat len],
      w\<lparr>rand_calls := rand_calls w + nat len\<rparr>)"

subsection \<open>Package strconv\<close>

definition isDigit :: "char \<Rightarrow> bool" where
  "isDigit c = (c \<in> set ''0123456789'')"

definition digit :: "char \<Rightarrow> int" where
  "digit c = of_char c - 48"

definition decimal :: "string \<Rightarrow> int" where
  "decimal s = foldl (\<lambda>acc c. 10 * acc + digit c) 0 s"

text \<open>
  \<open>strconv.Quote\<close>, for the error messages: the string between double quotes, a double
  quote and a backslash escaped. (The escapes of control characters are left out.)
\<close>

definition Quote :: "string \<Rightarrow> string" where
  "Quote s = CHR 0x22 # concat (map (\<lambda>c. if c = CHR 0x22 \<or> c = CHR 0x5C then [CHR 0x5C, c] else [c]) s)
     @ [CHR 0x22]"

definition NumError :: "string \<Rightarrow> string \<Rightarrow> string \<Rightarrow> string" where
  "NumError func num err = ''strconv.'' @ func @ '': parsing '' @ Quote num @ '': '' @ err"

text \<open>
  \<open>strconv.ParseInt(s, 10, 0)\<close>, with the name of the calling function for the error:
  an optional sign, then decimal digits; the result fits a 64-bit \<open>int\<close>.
\<close>

definition ParseInt10 :: "string \<Rightarrow> string \<Rightarrow> string + int" where
  "ParseInt10 func s =
     (let neg = (s \<noteq> [] \<and> hd s = CHR ''-'');
          ds = (if s \<noteq> [] \<and> (hd s = CHR ''+'' \<or> hd s = CHR ''-'') then tl s else s)
      in if ds = [] \<or> \<not> list_all isDigit ds then Inl (NumError func s ''invalid syntax'')
         else if \<not> neg \<and> decimal ds \<ge> 2 ^ 63 then Inl (NumError func s ''value out of range'')
         else if neg \<and> decimal ds > 2 ^ 63 then Inl (NumError func s ''value out of range'')
         else Inr (if neg then - decimal ds else decimal ds))"

definition ParseInt :: "string \<Rightarrow> string + int" where
  "ParseInt s = ParseInt10 ''ParseInt'' s"

definition Atoi :: "string \<Rightarrow> string + int" where
  "Atoi s = ParseInt10 ''Atoi'' s"

definition ParseBool :: "string \<Rightarrow> string + bool" where
  "ParseBool str =
     (if str = ''1'' \<or> str = ''t'' \<or> str = ''T'' \<or> str = ''TRUE'' \<or> str = ''true'' \<or> str = ''True''
      then Inr True
      else if str = ''0'' \<or> str = ''f'' \<or> str = ''F'' \<or> str = ''FALSE'' \<or> str = ''false'' \<or> str = ''False''
      then Inr False
      else Inl (NumError ''ParseBool'' str ''invalid syntax''))"

subsection \<open>Package strings and the regular expression\<close>

text \<open>\<open>strings.Split(s, sep)\<close> for a separator of one character.\<close>

fun Split :: "string \<Rightarrow> char \<Rightarrow> string list" where
  "Split [] sep = [[]]"
| "Split (c # cs) sep =
     (if c = sep then [] # Split cs sep
      else (case Split cs sep of [] \<Rightarrow> [[c]] | x # xs \<Rightarrow> (c # x) # xs))"

text \<open>
  \<open>rndStringRegex\<close> is \<open>__RND_(\d+)__\<close>. \<open>match_here s\<close> is the match that starts at
  the first character of \<open>s\<close>: the digits of the group, when there is one. The digits are
  followed by an underscore, so the greedy group is the whole run of digits.
  \<open>FindStringSubmatch\<close> returns the group of the leftmost match, as Go does, and
  \<open>MatchString\<close> says whether there is a match anywhere in the string.
\<close>

definition match_here :: "string \<Rightarrow> string option" where
  "match_here s =
     (if take 6 s = ''__RND_'' \<and> takeWhile isDigit (drop 6 s) \<noteq> []
         \<and> take 2 (dropWhile isDigit (drop 6 s)) = ''__''
      then Some (takeWhile isDigit (drop 6 s)) else None)"

fun FindStringSubmatch :: "string \<Rightarrow> string option" where
  "FindStringSubmatch [] = None"
| "FindStringSubmatch (c # cs) =
     (case match_here (c # cs) of Some ds \<Rightarrow> Some ds | None \<Rightarrow> FindStringSubmatch cs)"

definition MatchString :: "string \<Rightarrow> bool" where
  "MatchString s = (FindStringSubmatch s \<noteq> None)"

subsection \<open>Struct tags\<close>

definition EnvVarTag :: string where "EnvVarTag = ''env''"
definition SectionTag :: string where "SectionTag = ''sect''"
definition DefaultTag :: string where "DefaultTag = ''default''"

text \<open>\<open>StructTag.Lookup\<close>: the value of the first pair with the key, and whether there is one.\<close>

definition Lookup :: "(string \<times> string) list \<Rightarrow> string \<Rightarrow> string \<times> bool" where
  "Lookup tag key = (case map_of tag key of None \<Rightarrow> ([], False) | Some v \<Rightarrow> (v, True))"

subsection \<open>processValueFromString\<close>

text \<open>
  \<open>reflect.Append\<close> of strings to the field: a slice of strings grows; on a value of
  any other type (an array, a slice of another element type) reflect panics.
\<close>

definition Append :: "val \<Rightarrow> string list \<Rightarrow> val option" where
  "Append v a = (case v of VSlice xs \<Rightarrow> Some (VSlice (xs @ a)) | _ \<Rightarrow> None)"

text \<open>
  The function returns its error, the new value of the field and the new world. The
  messages written with \<open>log.Printf\<close> are not part of the model.
\<close>

definition processValueFromString :: "world \<Rightarrow> field \<Rightarrow> string \<Rightarrow> result \<times> val \<times> world" where
  "processValueFromString w f value =
     (let k = kind_of (Value f) in
      if k = StringK then
        (if value = ''__TMP_DIR__'' then
           (case TempDir w of
              (Inr dir, w') \<Rightarrow> (NoError, VString dir, w')
            | (Inl err, w') \<Rightarrow>
                (Error (''error generating temporary directory for field '' @ Name f @ '': '' @ err),
                 Value f, w'))
         else if MatchString value then
           (case Atoi (the (FindStringSubmatch value)) of
              Inr rndStringLen \<Rightarrow>
                (case RandomStr w rndStringLen of (rndString, w') \<Rightarrow> (NoError, VString rndString, w'))
            | Inl err \<Rightarrow>
                (Error (''error generating random string for field '' @ Name f @ '': '' @ err),
                 Value f, w))
         else (NoError, VString value, w))
      else if k = BoolK then
        (case ParseBool value of
           Inr newBool \<Rightarrow> (NoError, VBool newBool, w)
         | Inl err \<Rightarrow>
             (Error (''error parsing bool value for field '' @ Name f @ '': '' @ err), Value f, w))
      else if k = SliceK \<or> k = ArrayK then
        (if value \<noteq> [] then
           (case Append (Value f) (Split value (CHR '','')) of
              Some v \<Rightarrow> (NoError, v, w)
            | None \<Rightarrow> (Panic ''reflect.Append'', Value f, w))
         else (NoError, Value f, w))
      else if k = IntK \<or> k = Int64K then
        (case ParseInt value of
           Inr num \<Rightarrow> (NoError, (if k = IntK then VInt num else VInt64 num), w)
         | Inl err \<Rightarrow>
             (Error (''error parsing int value for field '' @ Name f @ '': '' @ err), Value f, w))
      else (NoError, Value f, w))"

subsection \<open>load\<close>

text \<open>
  One round of the loop of \<open>load\<close> on a field that is not a struct chooses the string
  to assign. \<open>setValue\<close> is declared before the loop, so it keeps the value of the
  round before. The result is whether the round ends here (\<open>continue\<close>) and the new
  \<open>setValue\<close>.
\<close>

definition pick_value :: "world \<Rightarrow> string \<Rightarrow> field \<Rightarrow> string \<Rightarrow> bool \<times> string" where
  "pick_value w source f setValue =
     (case (if source = ''default''
            then (case Lookup (Tag f) DefaultTag of (v, ok) \<Rightarrow> (\<not> ok, v))
            else (False, setValue)) of
        (True, sv) \<Rightarrow> (True, sv)
      | (False, sv) \<Rightarrow>
          (if source = ''env''
           then (case Lookup (Tag f) EnvVarTag of
                   (env, True) \<Rightarrow> (Getenv w env = [], Getenv w env)
                 | (env, False) \<Rightarrow> (False, sv))
           else (False, sv)))"

text \<open>
  The loop of \<open>load\<close> over the fields that are left, with the current \<open>setValue\<close>.
  The recursive call on a field that is a struct starts with an empty \<open>setValue\<close> of
  its own, and its error is dropped (line 84); a panic goes through.
\<close>

fun load_fields :: "world \<Rightarrow> field list \<Rightarrow> string \<Rightarrow> string \<Rightarrow> result \<times> field list \<times> world" where
  "load_fields w [] source setValue = (NoError, [], w)"
| "load_fields w (StructField n t (VStruct sub) # fs) source setValue =
     (case load_fields w sub source [] of
        (r, sub', w') \<Rightarrow>
          if is_abort r then (r, StructField n t (VStruct sub') # fs, w')
          else (case load_fields w' fs source setValue of
                  (r', fs', w'') \<Rightarrow> (r', StructField n t (VStruct sub') # fs', w'')))"
| "load_fields w (f # fs) source setValue =
     (case pick_value w source f setValue of
        (True, sv) \<Rightarrow>
          (case load_fields w fs source sv of (r, fs', w') \<Rightarrow> (r, f # fs', w'))
      | (False, sv) \<Rightarrow>
          (case processValueFromString w f sv of
             (NoError, v, w') \<Rightarrow>
               (case load_fields w' fs source sv of
                  (r, fs', w'') \<Rightarrow> (r, StructField (Name f) (Tag f) v # fs', w''))
           | (err, v, w') \<Rightarrow> (err, StructField (Name f) (Tag f) v # fs, w')))"

text \<open>\<open>load\<close> on a value: \<open>NumField\<close> panics when the value is not a struct.\<close>

definition load :: "world \<Rightarrow> val \<Rightarrow> string \<Rightarrow> result \<times> val \<times> world" where
  "load w v source =
     (case v of
        VStruct fs \<Rightarrow> (case load_fields w fs source [] of (r, fs', w') \<Rightarrow> (r, VStruct fs', w'))
      | _ \<Rightarrow> (Panic ''reflect: NumField of non-struct type'', v, w))"

text \<open>
  \<open>reflect.ValueOf(object).Elem()\<close>: the value a pointer points to. For a nil pointer
  it is the zero \<open>Value\<close>, on which \<open>load\<close> panics, as it does on a value that is
  not a struct.
\<close>

definition Elem :: "object \<Rightarrow> val option" where
  "Elem object = (case object of Pointer v \<Rightarrow> Some v | _ \<Rightarrow> None)"

definition load_object :: "world \<Rightarrow> object \<Rightarrow> string \<Rightarrow> result \<times> object \<times> world" where
  "load_object w object source =
     (case Elem object of
        None \<Rightarrow> (Panic ''reflect: call of reflect.Value.Type on zero Value'', object, w)
      | Some v \<Rightarrow> (case load w v source of (r, v', w') \<Rightarrow> (r, Pointer v', w')))"

text \<open>
  \<open>loadDefaults\<close> and \<open>loadFromEnv\<close> call \<open>load\<close> and return \<open>nil\<close>, whatever
  \<open>load\<close> returned (lines 113 and 169); only a panic is not stopped.
\<close>

definition loadDefaults :: "world \<Rightarrow> object \<Rightarrow> result \<times> object \<times> world" where
  "loadDefaults w object =
     (case load_object w object ''default'' of
        (r, object', w') \<Rightarrow> (if is_abort r then r else NoError, object', w'))"

definition loadFromEnv :: "world \<Rightarrow> object \<Rightarrow> result \<times> object \<times> world" where
  "loadFromEnv w object =
     (case load_object w object ''env'' of
        (r, object', w') \<Rightarrow> (if is_abort r then r else NoError, object', w'))"

subsection \<open>Package filepath (Unix)\<close>

definition strings_Join :: "string list \<Rightarrow> string \<Rightarrow> string" where
  "strings_Join elems sep = (case elems of [] \<Rightarrow> [] | e # es \<Rightarrow> e @ concat (map (\<lambda>x. sep @ x) es))"

text \<open>
  \<open>filepath.Clean\<close>: the elements of the path between slashes are read from left to
  right onto a stack; an empty element and \<open>.\<close> are dropped, \<open>..\<close> removes the element
  before it, is dropped at the root, and is kept at the start of a relative path.
\<close>

definition clean_step :: "bool \<Rightarrow> string list \<Rightarrow> string \<Rightarrow> string list" where
  "clean_step rooted stack e =
     (if e = [] \<or> e = ''.'' then stack
      else if e = ''..'' then
        (if stack \<noteq> [] \<and> hd stack \<noteq> ''..'' then tl stack
         else if rooted then stack else e # stack)
      else e # stack)"

definition Clean :: "string \<Rightarrow> string" where
  "Clean path =
     (if path = [] then ''.''
      else let rooted = (hd path = CHR ''/'');
               out = rev (foldl (clean_step rooted) [] (Split path (CHR ''/'')));
               s = (if rooted then ''/'' else []) @ strings_Join out ''/''
           in if s = [] then ''.'' else s)"

fun Join :: "string list \<Rightarrow> string" where
  "Join [] = []"
| "Join (e # es) = (if e \<noteq> [] then Clean (strings_Join (e # es) ''/'') else Join es)"

definition IsAbs :: "string \<Rightarrow> bool" where
  "IsAbs path = (path \<noteq> [] \<and> hd path = CHR ''/'')"

definition Abs :: "world \<Rightarrow> string \<Rightarrow> string + string" where
  "Abs w path =
     (if IsAbs path then Inr (Clean path)
      else (case workdir w of Inl err \<Rightarrow> Inl err | Inr wd \<Rightarrow> Inr (Join [wd, path])))"

subsection \<open>Reading and merging YAML\<close>

text \<open>
  Modelled from the spec: \<open>pkger.Open\<close> is not among the sources. The specification says
  the "bundled source resolves name against a fixed virtual namespace of packaged
  configuration documents; absent name is a hard error".
\<close>

definition pkger_Open :: "world \<Rightarrow> string \<Rightarrow> string + entry" where
  "pkger_Open w path =
     (case packaged w path of
        None \<Rightarrow> Inl (''open '' @ path @ '': file does not exist'')
      | Some file \<Rightarrow> Inr file)"

text \<open>\<open>ioutil.ReadAll\<close> on an open file: its bytes, or the error of the read.\<close>

definition ReadAll :: "entry \<Rightarrow> string + bytes" where
  "ReadAll file = (case file of Unreadable cause \<Rightarrow> Inl cause | Regular data \<Rightarrow> Inr data)"

text \<open>
  \<open>ioutil.ReadFile\<close>: the error of a failed read is an \<open>*os.PathError\<close>, whose message
  holds the operation, the path and the cause.
\<close>

definition ReadFile :: "world \<Rightarrow> string \<Rightarrow> string + bytes" where
  "ReadFile w path =
     (case disk w path of
        None \<Rightarrow> Inl (''open '' @ path @ '': no such file or directory'')
      | Some (Unreadable cause) \<Rightarrow> Inl (''open '' @ path @ '': '' @ cause)
      | Some (Regular data) \<Rightarrow> Inr data)"

text \<open>
  Modelled from the spec: \<open>yaml.Unmarshal\<close> is not among the sources. The specification
  says a document is deserialize-merged into the target, a "structural merge: only keys
  present in the document overwrite corresponding fields; absent keys are untouched", and
  that its "keys map onto ConfigurationSchema field paths". Here a key names the field it
  sets; a mapping under a key is merged into the struct of that field; a leaf replaces the
  value of a field of its kind; a key that names no field is skipped. A node that does not
  fit its field is an error of the document. The functions return the messages of the
  errors and the merged value.
\<close>

fun unmarshal :: "ynode \<Rightarrow> val \<Rightarrow> string list \<times> val"
  and mappingStruct :: "(string \<times> ynode) list \<Rightarrow> field list \<Rightarrow> string list \<times> field list"
  and setField :: "string \<Rightarrow> ynode \<Rightarrow> field list \<Rightarrow> string list \<times> field list" where
  "unmarshal (YLeaf x) v =
     (if kind_of x = kind_of v \<and> kind_of v \<noteq> StructK then ([], x)
      else ([''cannot unmarshal scalar into field''], v))"
| "unmarshal (YMap kvs) (VStruct fs) =
     (case mappingStruct kvs fs of (errs, fs') \<Rightarrow> (errs, VStruct fs'))"
| "unmarshal (YMap kvs) v = ([''cannot unmarshal !!map into field''], v)"
| "mappingStruct [] fs = ([], fs)"
| "mappingStruct ((k, n) # kvs) fs =
     (case setField k n fs of
        (errs, fs') \<Rightarrow> (case mappingStruct kvs fs' of (errs', fs'') \<Rightarrow> (errs @ errs', fs'')))"
| "setField k n [] = ([], [])"
| "setField k n (f # fs) =
     (if Name f = k
      then (case unmarshal n (Value f) of
              (errs, v) \<Rightarrow> (errs, StructField (Name f) (Tag f) v # fs))
      else (case setField k n fs of (errs, fs') \<Rightarrow> (errs, f # fs')))"

definition Unmarshal :: "bytes \<Rightarrow> object \<Rightarrow> result \<times> object" where
  "Unmarshal data object =
     (case data of
        Malformed msg \<Rightarrow> (Error (''yaml: '' @ msg), object)
      | Yaml node \<Rightarrow>
          (case object of
             Pointer v \<Rightarrow>
               (case unmarshal node v of
                  (errs, v') \<Rightarrow>
                    (if errs = [] then NoError
                     else Error (''yaml: unmarshal errors:'' @ concat (map (\<lambda>e. CHR 0x0A # ''  '' @ e) errs)),
                     Pointer v'))
           | _ \<Rightarrow> (Panic ''reflect: value is not settable'', object)))"

subsection \<open>The YAML loaders and IntoObject\<close>

definition loadYAMLFromConfigs :: "world \<Rightarrow> object \<Rightarrow> string \<Rightarrow> result \<times> object" where
  "loadYAMLFromConfigs w object name =
     (case pkger_Open w (Join [''/configs'', name @ ''.yaml'']) of
        Inl err \<Rightarrow> (Error (''error trying to open config '' @ name @ '': '' @ err), object)
      | Inr file \<Rightarrow>
          (case ReadAll file of
             Inl err \<Rightarrow> (Error err, object)
           | Inr data \<Rightarrow> Unmarshal data object))"

definition loadYAMLFromFile :: "world \<Rightarrow> object \<Rightarrow> string \<Rightarrow> result \<times> object" where
  "loadYAMLFromFile w object name =
     (case workdir w of
        Inl err \<Rightarrow> (Exit (''Unable to get CWD: '' @ err), object)
      | Inr dir \<Rightarrow>
          (case Abs w (Join [dir, name]) of
             Inl err \<Rightarrow> (Error err, object)
           | Inr path \<Rightarrow>
               (case ReadFile w (Clean path) of
                  Inl err \<Rightarrow> (Error err, object)
                | Inr data \<Rightarrow> Unmarshal data object)))"

text \<open>The loop over \<open>configs\<close> in \<open>IntoObject\<close> (lines 52 to 56).\<close>

fun load_configs :: "world \<Rightarrow> object \<Rightarrow> string list \<Rightarrow> result \<times> object" where
  "load_configs w object [] = (NoError, object)"
| "load_configs w object (config # configs) =
     (case loadYAMLFromConfigs w object config of
        (NoError, object') \<Rightarrow> load_configs w object' configs
      | (Error err, object') \<Rightarrow> (Error (''error loading config from YAML: '' @ err), object')
      | (r, object') \<Rightarrow> (r, object'))"

text \<open>\<open>reflect.TypeOf(object).Kind()\<close>.\<close>

definition TypeOf_Kind :: "object \<Rightarrow> kind" where
  "TypeOf_Kind object = (case object of NonPointer v \<Rightarrow> kind_of v | _ \<Rightarrow> PtrK)"

definition IntoObject :: "world \<Rightarrow> object \<Rightarrow> string list \<Rightarrow> string \<Rightarrow> result \<times> object \<times> world" where
  "IntoObject w object configs customConfig =
     (if TypeOf_Kind object \<noteq> PtrK then (Error ''the supplied object must be a pointer'', object, w)
      else
        (case loadDefaults w object of
           (Error err, o1, w1) \<Rightarrow> (Error (''error loading config defaults: '' @ err), o1, w1)
         | (NoError, o1, w1) \<Rightarrow>
             (case load_configs w1 o1 configs of
                (NoError, o2) \<Rightarrow>
                  (case (if customConfig \<noteq> [] then loadYAMLFromFile w1 o2 customConfig
                         else (NoError, o2)) of
                     (Error err, o3) \<Rightarrow>
                       (Error (''error loading custom config from YAML: '' @ err), o3, w1)
                   | (NoError, o3) \<Rightarrow>
                       (case loadFromEnv w1 o3 of
                          (Error err, o4, w4) \<Rightarrow>
                            (Error (''error loading config from environment: '' @ err), o4, w4)
                        | (r, o4, w4) \<Rightarrow> (r, o4, w4))
                   | (r, o3) \<Rightarrow> (r, o3, w1))
              | (r, o2) \<Rightarrow> (r, o2, w1))
         | (r, o1, w1) \<Rightarrow> (r, o1, w1)))"

subsection \<open>Observations for the statements\<close>

text \<open>
  The field of a struct with a given name (the first one: Go has no two), its value, and
  what the loader never changes of a field: its name, its tag and the kind of its value.
\<close>

fun field_named :: "string \<Rightarrow> field list \<Rightarrow> field option" where
  "field_named k [] = None"
| "field_named k (f # fs) = (if Name f = k then Some f else field_named k fs)"

definition field_value :: "string \<Rightarrow> field list \<Rightarrow> val option" where
  "field_value k fs = map_option Value (field_named k fs)"

definition shape :: "field \<Rightarrow> string \<times> (string \<times> string) list \<times> kind" where
  "shape f = (Name f, Tag f, kind_of (Value f))"

text \<open>Two worlds with the same environment, working directory, packaged files and disk.\<close>

definition same_inputs :: "world \<Rightarrow> world \<Rightarrow> bool" where
  "same_inputs w w' =
     (environ w' = environ w \<and> workdir w' = workdir w \<and> packaged w' = packaged w \<and> disk w' = disk w)"

text \<open>
  The node under a key of the first level of the packaged overlay with that name: the
  last one, when the document holds the key more than once.
\<close>

definition overlay_sets :: "world \<Rightarrow> string \<Rightarrow> string \<Rightarrow> ynode option" where
  "overlay_sets w name k =
     (case packaged w (Join [''/configs'', name @ ''.yaml'']) of
        Some (Regular (Yaml (YMap kvs))) \<Rightarrow> map_of (rev kvs) k
      | _ \<Rightarrow> None)"

text \<open>
  \<open>IntoObject\<close> up to the environment pass (lines 42 to 64): the guard, the defaults,
  the packaged overlays and the custom overlay.
\<close>

definition before_env :: "world \<Rightarrow> object \<Rightarrow> string list \<Rightarrow> string \<Rightarrow> result \<times> object \<times> world" where
  "before_env w object configs customConfig =
     (if TypeOf_Kind object \<noteq> PtrK then (Error ''the supplied object must be a pointer'', object, w)
      else
        (case loadDefaults w object of
           (Error err, o1, w1) \<Rightarrow> (Error (''error loading config defaults: '' @ err), o1, w1)
         | (NoError, o1, w1) \<Rightarrow>
             (case load_configs w1 o1 configs of
                (NoError, o2) \<Rightarrow>
                  (case (if customConfig \<noteq> [] then loadYAMLFromFile w1 o2 customConfig
                         else (NoError, o2)) of
                     (Error err, o3) \<Rightarrow>
                       (Error (''error loading custom config from YAML: '' @ err), o3, w1)
                   | (r, o3) \<Rightarrow> (r, o3, w1))
              | (r, o2) \<Rightarrow> (r, o2, w1))
         | (r, o1, w1) \<Rightarrow> (r, o1, w1)))"

subsection \<open>A world and some fields for the closed instances\<close>

definition example_world :: world where
  "example_world =
     \<lparr>environ = map_of [(''S'', ''a,b,c''), (''B'', ''x''), (''A'', ''maybe''), (''N'', ''42''),
                         (''DBG'', ''true'')],
      workdir = Inr ''/work'',
      packaged = map_of
        [(''/configs/A.yaml'', Regular (Yaml (YMap [(''F'', YLeaf (VString ''fromA''))]))),
         (''/configs/B.yaml'', Regular (Yaml (YMap [(''F'', YLeaf (VString ''fromB''))])))],
      disk = Map.empty,
      tempdir_results = (\<lambda>n. Inr ''/tmp/osde2e123''),
      tempdir_calls = 0,
      rand_ints = (\<lambda>i. 7 * i + 3),
      rand_calls = 0\<rparr>"


section \<open>Properties\<close>

lemmas eval_defs = example_world_def IntoObject_def TypeOf_Kind_def loadDefaults_def
  loadFromEnv_def load_object_def Elem_def load_def pick_value_def Lookup_def DefaultTag_def
  EnvVarTag_def processValueFromString_def ParseBool_def Getenv_def NumError_def Quote_def
  MatchString_def match_here_def Atoi_def ParseInt_def ParseInt10_def isDigit_def digit_def
  decimal_def Append_def TempDir_def RandomStr_def

lemmas yaml_eval_defs = loadYAMLFromConfigs_def pkger_Open_def ReadAll_def Unmarshal_def Clean_def
  strings_Join_def clean_step_def overlay_sets_def

subsection \<open>One round of the loop on a field that is not a struct\<close>

lemma load_fields_leaf:
  assumes "kind_of (Value f) \<noteq> StructK"
  shows "load_fields w (f # fs) source setValue =
     (case pick_value w source f setValue of
        (True, sv) \<Rightarrow>
          (case load_fields w fs source sv of (r, fs', w') \<Rightarrow> (r, f # fs', w'))
      | (False, sv) \<Rightarrow>
          (case processValueFromString w f sv of
             (NoError, v, w') \<Rightarrow>
               (case load_fields w' fs source sv of
                  (r, fs', w'') \<Rightarrow> (r, StructField (Name f) (Tag f) v # fs', w''))
           | (err, v, w') \<Rightarrow> (err, StructField (Name f) (Tag f) v # fs, w')))"
proof (cases f)
  case (StructField n t v)
  with assms show ?thesis by (cases v) (auto split: prod.splits result.splits)
qed

lemma processValueFromString_other:
  assumes "kind_of (Value f) \<notin> {StringK, BoolK, SliceK, ArrayK, IntK, Int64K}"
  shows "processValueFromString w f value = (NoError, Value f, w)"
  using assms by (simp add: processValueFromString_def)

subsection \<open>Fields of a kind the switch does not name\<close>

text \<open>
  C10: For every field whose kind is not string, boolean, slice, array, \<open>int\<close> or
  \<open>int64\<close> (an unsigned integer, a float, but also an \<open>int32\<close>), the assignment from a
  string, \<open>processValueFromString\<close>, leaves the field as it is and returns \<open>nil\<close>,
  whatever the string; so a round of \<open>load\<close> on such a field, in the default pass, the
  environment pass or any other, changes nothing and reports no error.
\<close>

theorem unsupported_kind_is_skipped:
  assumes "kind_of (Value f) \<notin> {StringK, BoolK, SliceK, ArrayK, IntK, Int64K}"
  shows "processValueFromString w f value = (NoError, Value f, w)
    \<and> (kind_of (Value f) \<noteq> StructK \<longrightarrow> load_fields w [f] source setValue = (NoError, [f], w))"
proof -
  have p: "\<And>v. processValueFromString w f v = (NoError, Value f, w)"
    using assms by (rule processValueFromString_other)
  have "load_fields w [f] source setValue = (NoError, [f], w)" if "kind_of (Value f) \<noteq> StructK"
    using that by (auto simp: load_fields_leaf p split: prod.splits bool.splits)
  with p show ?thesis by blast
qed

theorem unsupported_kind_is_skipped_witness:
  "processValueFromString example_world
      (StructField ''Retries'' [(''default'', ''3''), (''env'', ''N'')] (VOpaque UintK 7)) ''42''
     = (NoError, VOpaque UintK 7, example_world)
   \<and> load_fields example_world
      [StructField ''Retries'' [(''default'', ''3''), (''env'', ''N'')] (VOpaque UintK 7)] ''env'' []
     = (NoError, [StructField ''Retries'' [(''default'', ''3''), (''env'', ''N'')] (VOpaque UintK 7)],
        example_world)"
  using unsupported_kind_is_skipped
    [of "StructField ''Retries'' [(''default'', ''3''), (''env'', ''N'')] (VOpaque UintK 7)"
      example_world "''42''" "''env''" "[]"]
  by simp

subsection \<open>Slices of strings\<close>

text \<open>
  What the assignment does to a sequence-of-string field: the pieces of the raw value
  between commas are appended, in order, to the sequence the field holds, and an empty
  string leaves the field as it is.
\<close>

theorem slice_field_appends:
  "processValueFromString w (StructField n t (VSlice xs)) value
     = (NoError, VSlice (if value = [] then xs else xs @ Split value (CHR '','')), w)
   \<and> Split ''a,b,c'' (CHR '','') = [''a'', ''b'', ''c'']"
  by (simp add: processValueFromString_def Append_def)

theorem slice_field_appends_witness:
  "processValueFromString example_world (StructField ''S'' [(''env'', ''S'')] (VSlice [])) ''a,b,c''
     = (NoError, VSlice [''a'', ''b'', ''c''], example_world)
   \<and> processValueFromString example_world (StructField ''S'' [(''env'', ''S'')] (VSlice [])) []
     = (NoError, VSlice [], example_world)"
  using slice_field_appends [of example_world "''S''" "[(''env'', ''S'')]" "[]" "''a,b,c''"]
    slice_field_appends [of example_world "''S''" "[(''env'', ''S'')]" "[]" "[]"]
  by simp

text \<open>
  C5 (the code departs from the claim): the input \<open>a,b,c\<close> does not resolve a
  sequence-of-string field to the sequence \<open>a\<close>, \<open>b\<close>, \<open>c\<close> when an earlier pass
  has filled the field: the assignment keeps what the field holds (here the element an
  overlay left) and appends. So does \<open>IntoObject\<close> on a field with the default
  \<open>x,y\<close> whose variable is set to \<open>a,b,c\<close>.
\<close>

theorem slice_assignment_accumulates:
  "processValueFromString example_world (StructField ''S'' [(''env'', ''S'')] (VSlice [''o''])) ''a,b,c''
     = (NoError, VSlice [''o'', ''a'', ''b'', ''c''], example_world)
   \<and> VSlice [''o'', ''a'', ''b'', ''c''] \<noteq> VSlice [''a'', ''b'', ''c'']
   \<and> IntoObject example_world
      (Pointer (VStruct [StructField ''Addons'' [(''default'', ''x,y''), (''env'', ''S'')] (VSlice [])]))
      [] []
     = (NoError,
        Pointer (VStruct [StructField ''Addons'' [(''default'', ''x,y''), (''env'', ''S'')]
          (VSlice [''x'', ''y'', ''a'', ''b'', ''c''])]),
        example_world)"
  by (simp add: eval_defs)

subsection \<open>The guard of IntoObject\<close>






subsection \<open>The regular expression and the conversions\<close>

lemma underscore_not_digit: "\<not> isDigit (CHR ''_'')"
  by (simp add: isDigit_def)

lemma takeWhile_digits:
  "list_all isDigit ds \<Longrightarrow> takeWhile isDigit (ds @ CHR ''_'' # s) = ds"
  by (induction ds) (simp_all add: underscore_not_digit)

lemma dropWhile_digits:
  "list_all isDigit ds \<Longrightarrow> dropWhile isDigit (ds @ CHR ''_'' # s) = CHR ''_'' # s"
  by (induction ds) (simp_all add: underscore_not_digit)

lemma match_here_pattern:
  assumes "ds \<noteq> []" and "list_all isDigit ds"
  shows "match_here (''__RND_'' @ ds @ ''__'' @ s) = Some ds"
  using assms by (simp add: match_here_def takeWhile_digits dropWhile_digits)

lemma match_here_SomeD:
  assumes "match_here v = Some ds"
  shows "ds \<noteq> [] \<and> list_all isDigit ds \<and> (\<exists>s. v = ''__RND_'' @ ds @ ''__'' @ s)"
proof -
  from assms have t: "take 6 v = ''__RND_''" and d: "takeWhile isDigit (drop 6 v) = ds"
    and n: "ds \<noteq> []" and u: "take 2 (dropWhile isDigit (drop 6 v)) = ''__''"
    by (auto simp: match_here_def split: if_splits)
  have all: "list_all isDigit ds"
    using d by (metis list_all_iff set_takeWhileD)
  have "v = take 6 v @ drop 6 v" by simp
  also have "drop 6 v = takeWhile isDigit (drop 6 v) @ dropWhile isDigit (drop 6 v)" by simp
  also have "dropWhile isDigit (drop 6 v)
      = take 2 (dropWhile isDigit (drop 6 v)) @ drop 2 (dropWhile isDigit (drop 6 v))" by simp
  finally have "v = ''__RND_'' @ ds @ ''__'' @ drop 2 (dropWhile isDigit (drop 6 v))"
    using t d u by simp
  with n all show ?thesis by blast
qed

lemma FindStringSubmatch_first:
  assumes "\<forall>i<length p. match_here (drop i (p @ m)) = None" and "match_here m = Some ds"
  shows "FindStringSubmatch (p @ m) = Some ds"
  using assms
proof (induction p)
  case Nil
  then show ?case by (cases m) (simp_all add: match_here_def)
next
  case (Cons c p)
  from Cons.prems(1) have h: "match_here (c # p @ m) = None" by force
  have "\<forall>i<length p. match_here (drop i (p @ m)) = None"
  proof (intro allI impI)
    fix i assume "i < length p"
    then have "Suc i < length (c # p)" by simp
    with Cons.prems(1) have "match_here (drop (Suc i) ((c # p) @ m)) = None" by blast
    then show "match_here (drop i (p @ m)) = None" by simp
  qed
  with Cons.IH Cons.prems(2) have "FindStringSubmatch (p @ m) = Some ds" by blast
  with h show ?case by simp
qed

lemma FindStringSubmatch_contains:
  assumes "match_here m = Some ds"
  shows "\<exists>ds'. FindStringSubmatch (p @ m) = Some ds'"
proof (induction p)
  case Nil
  from assms show ?case by (cases m) (simp_all add: match_here_def)
next
  case (Cons c p)
  then show ?case by (cases "match_here (c # p @ m)") auto
qed

lemma FindStringSubmatch_SomeD:
  "FindStringSubmatch v = Some ds \<Longrightarrow>
     ds \<noteq> [] \<and> list_all isDigit ds \<and> (\<exists>p s. v = p @ ''__RND_'' @ ds @ ''__'' @ s)"
proof (induction v)
  case Nil
  then show ?case by simp
next
  case (Cons c v)
  show ?case
  proof (cases "match_here (c # v)")
    case None
    with Cons obtain p s where "ds \<noteq> []" "list_all isDigit ds" "v = p @ ''__RND_'' @ ds @ ''__'' @ s"
      by auto
    then have "c # v = (c # p) @ ''__RND_'' @ ds @ ''__'' @ s" by simp
    with \<open>ds \<noteq> []\<close> \<open>list_all isDigit ds\<close> show ?thesis by blast
  next
    case (Some a)
    with Cons.prems have "match_here (c # v) = Some ds" by simp
    from match_here_SomeD [OF this] show ?thesis by (metis append_Nil)
  qed
qed

lemma digit_nonneg: "isDigit c \<Longrightarrow> 0 \<le> digit c"
  by (auto simp: isDigit_def digit_def)

lemma foldl_decimal_nonneg:
  "list_all isDigit ds \<Longrightarrow> 0 \<le> a \<Longrightarrow> 0 \<le> foldl (\<lambda>acc c. 10 * acc + digit c) a ds"
  by (induction ds arbitrary: a) (simp_all add: digit_nonneg)

lemma decimal_nonneg: "list_all isDigit ds \<Longrightarrow> 0 \<le> decimal ds"
  by (simp add: decimal_def foldl_decimal_nonneg)

lemma Atoi_digits:
  assumes "ds \<noteq> []" and "list_all isDigit ds"
  shows "Atoi ds = (if decimal ds < 2 ^ 63 then Inr (decimal ds)
                    else Inl (NumError ''Atoi'' ds ''value out of range''))"
proof -
  from assms have "isDigit (hd ds)" by (cases ds) simp_all
  then have "hd ds \<noteq> CHR ''+''" "hd ds \<noteq> CHR ''-''" by (auto simp: isDigit_def)
  with assms show ?thesis by (simp add: Atoi_def ParseInt10_def Let_def)
qed

lemma length_RandomStr: "length (fst (RandomStr w n)) = nat n"
  by (simp add: RandomStr_def)

lemma set_RandomStr: "set (fst (RandomStr w n)) \<subseteq> set alphanumeric"
proof -
  have "length alphanumeric = 62" by (simp add: alphanumeric_def)
  then have "alphanumeric ! (k mod 62) \<in> set alphanumeric" for k by simp
  then show ?thesis by (auto simp: RandomStr_def)
qed

lemma match_here_hd: "c \<noteq> CHR ''_'' \<Longrightarrow> match_here (c # s) = None"
  by (simp add: match_here_def)

lemma until_underscore:
  "CHR ''_'' \<notin> set n \<Longrightarrow> takeWhile (\<lambda>c. c \<noteq> CHR ''_'') (n @ CHR ''_'' # s) = n"
  by (induction n) auto

lemma no_match_without_underscore:
  "CHR ''_'' \<notin> set n \<Longrightarrow> FindStringSubmatch (n @ ''__'') = None"
proof (induction n)
  case Nil
  show ?case by (simp add: match_here_def)
next
  case (Cons c n)
  then have "c \<noteq> CHR ''_''" by auto
  with Cons show ?case by (simp add: match_here_hd)
qed

lemma match_here_nonnumeric:
  assumes "CHR ''_'' \<notin> set n" and "\<not> (n \<noteq> [] \<and> list_all isDigit n)"
  shows "match_here (''__RND_'' @ n @ ''__'') = None"
proof (cases "match_here (''__RND_'' @ n @ ''__'')")
  case None
  then show ?thesis .
next
  case (Some ds)
  from match_here_SomeD [OF this] obtain s where ds: "ds \<noteq> []" "list_all isDigit ds"
    and eq: "''__RND_'' @ n @ ''__'' = ''__RND_'' @ ds @ ''__'' @ s" by blast
  from eq have e: "n @ ''__'' = ds @ ''__'' @ s" by simp
  have "CHR ''_'' \<notin> set ds" using ds(2) by (auto simp: list_all_iff isDigit_def)
  have "takeWhile (\<lambda>c. c \<noteq> CHR ''_'') (n @ ''__'') = takeWhile (\<lambda>c. c \<noteq> CHR ''_'') (ds @ ''__'' @ s)"
    using e by simp
  with assms(1) \<open>CHR ''_'' \<notin> set ds\<close> have "n = ds"
    by (simp add: until_underscore)
  with ds assms(2) show ?thesis by simp
qed

lemma FindStringSubmatch_nonnumeric:
  assumes "CHR ''_'' \<notin> set n" and "\<not> (n \<noteq> [] \<and> list_all isDigit n)"
  shows "FindStringSubmatch (''__RND_'' @ n @ ''__'') = None"
proof -
  have "FindStringSubmatch (''__RND_'' @ n @ ''__'') = FindStringSubmatch (''_RND_'' @ n @ ''__'')"
    using match_here_nonnumeric [OF assms] by simp
  also have "\<dots> = FindStringSubmatch (''RND_'' @ n @ ''__'')"
    by (simp add: match_here_def)
  also have "\<dots> = FindStringSubmatch (CHR ''_'' # n @ ''__'')"
    by (simp add: match_here_hd)
  also have "\<dots> = FindStringSubmatch (n @ ''__'')"
    using assms(1) by (cases n) (auto simp: match_here_def)
  finally show ?thesis using assms(1) by (simp add: no_match_without_underscore)
qed

lemma not_tmp_dir: "\<not> MatchString ''__TMP_DIR__''"
  by (simp add: MatchString_def match_here_def)

lemma processValueFromString_rnd:
  assumes "kind_of (Value f) = StringK" and "FindStringSubmatch value = Some ds"
  shows "processValueFromString w f value =
     (if decimal ds < 2 ^ 63
      then (NoError, VString (fst (RandomStr w (decimal ds))), snd (RandomStr w (decimal ds)))
      else (Error (''error generating random string for field '' @ Name f @ '': ''
                @ NumError ''Atoi'' ds ''value out of range''), Value f, w))"
proof -
  from assms(2) have m: "MatchString value" by (simp add: MatchString_def)
  with not_tmp_dir have t: "value \<noteq> ''__TMP_DIR__''" by auto
  from FindStringSubmatch_SomeD [OF assms(2)] have "ds \<noteq> []" "list_all isDigit ds" by auto
  from Atoi_digits [OF this] assms m t show ?thesis
    by (simp add: processValueFromString_def split: prod.splits)
qed

lemma processValueFromString_literal:
  assumes "kind_of (Value f) = StringK" and "FindStringSubmatch value = None"
    and "value \<noteq> ''__TMP_DIR__''"
  shows "processValueFromString w f value = (NoError, VString value, w)"
  using assms by (simp add: processValueFromString_def MatchString_def)

subsection \<open>The randomized-string directive\<close>

text \<open>
  C3, as amended: For every string field whose incoming value is of the form
  \<open>__RND_<N>__\<close> (\<open><N>\<close> without an underscore): if \<open><N>\<close> is a run of decimal
  digits that denotes a number below \<open>2^63\<close>, the field is assigned a random
  alphanumeric string of length \<open><N>\<close> instead of the literal; if \<open><N>\<close> is not a run
  of decimal digits (as in \<open>__RND_abc__\<close>), the value does not match the expression and
  the field is assigned the literal, with no error. A run of digits too large for an
  \<open>int\<close> is the one case in which the function returns "error generating random string".
\<close>

theorem rnd_directive:
  assumes "kind_of (Value f) = StringK" and "CHR ''_'' \<notin> set n"
  shows "processValueFromString w f (''__RND_'' @ n @ ''__'') =
     (if n \<noteq> [] \<and> list_all isDigit n then
        (if decimal n < 2 ^ 63
         then (NoError, VString (fst (RandomStr w (decimal n))), snd (RandomStr w (decimal n)))
         else (Error (''error generating random string for field '' @ Name f @ '': ''
                @ NumError ''Atoi'' n ''value out of range''), Value f, w))
      else (NoError, VString (''__RND_'' @ n @ ''__''), w))
    \<and> length (fst (RandomStr w (decimal n))) = nat (decimal n)
    \<and> set (fst (RandomStr w (decimal n))) \<subseteq> set alphanumeric"
proof (cases "n \<noteq> [] \<and> list_all isDigit n")
  case True
  then have "match_here (''__RND_'' @ n @ ''__'' @ []) = Some n"
    by (intro match_here_pattern) simp_all
  then have "FindStringSubmatch (''__RND_'' @ n @ ''__'') = Some n" by simp
  from processValueFromString_rnd [OF assms(1) this] True show ?thesis
    by (simp add: length_RandomStr set_RandomStr)
next
  case False
  then have "FindStringSubmatch (''__RND_'' @ n @ ''__'') = None"
    using assms(2) by (intro FindStringSubmatch_nonnumeric) simp_all
  moreover have "''__RND_'' @ n @ ''__'' \<noteq> ''__TMP_DIR__''" by simp
  ultimately have "processValueFromString w f (''__RND_'' @ n @ ''__'')
      = (NoError, VString (''__RND_'' @ n @ ''__''), w)"
    using assms(1) by (intro processValueFromString_literal)
  with False show ?thesis
    by (simp only: if_False length_RandomStr set_RandomStr simp_thms)
qed

lemma example_random_8: "fst (RandomStr example_world 8) = ''dkryFMT0''"
  by code_simp

lemma example_random_5: "fst (RandomStr example_world 5) = ''dkryF''"
  by code_simp

theorem rnd_directive_witness:
  "fst (processValueFromString example_world
      (StructField ''ClusterName'' [(''default'', ''__RND_8__'')] (VString [])) ''__RND_8__'') = NoError
   \<and> fst (snd (processValueFromString example_world
      (StructField ''ClusterName'' [(''default'', ''__RND_8__'')] (VString [])) ''__RND_8__''))
      = VString ''dkryFMT0''
   \<and> length ''dkryFMT0'' = (8::nat)
   \<and> processValueFromString example_world
      (StructField ''ClusterName'' [(''default'', ''__RND_x1__'')] (VString [])) ''__RND_x1__''
      = (NoError, VString ''__RND_x1__'', example_world)"
proof -
  have dec: "decimal ''8'' = 8" by (simp add: decimal_def digit_def)
  have a: "processValueFromString example_world
      (StructField ''ClusterName'' [(''default'', ''__RND_8__'')] (VString [])) ''__RND_8__''
      = (NoError, VString (fst (RandomStr example_world 8)), snd (RandomStr example_world 8))"
    using rnd_directive [of "StructField ''ClusterName'' [(''default'', ''__RND_8__'')] (VString [])"
      "''8''" example_world]
    by (simp add: isDigit_def dec)
  have b: "processValueFromString example_world
      (StructField ''ClusterName'' [(''default'', ''__RND_x1__'')] (VString [])) ''__RND_x1__''
      = (NoError, VString ''__RND_x1__'', example_world)"
    using rnd_directive [of "StructField ''ClusterName'' [(''default'', ''__RND_x1__'')] (VString [])"
      "''x1''" example_world]
    by (simp add: isDigit_def)
  from a b show ?thesis by (simp add: example_random_8)
qed

text \<open>
  C3 as stated fails at \<open>__RND_abc__\<close>: the assignment returns \<open>nil\<close> and stores the
  literal, and so does \<open>IntoObject\<close> on a struct whose field has that default.
\<close>

theorem rnd_nonnumeric_counterexample:
  "processValueFromString example_world
      (StructField ''ClusterName'' [(''default'', ''__RND_abc__''), (''env'', ''UNSET'')] (VString []))
      ''__RND_abc__''
     = (NoError, VString ''__RND_abc__'', example_world)
   \<and> IntoObject example_world
      (Pointer (VStruct [StructField ''ClusterName'' [(''default'', ''__RND_abc__''), (''env'', ''UNSET'')]
         (VString [])])) [] []
     = (NoError,
        Pointer (VStruct [StructField ''ClusterName'' [(''default'', ''__RND_abc__''), (''env'', ''UNSET'')]
         (VString ''__RND_abc__'')]),
        example_world)"
  by (simp add: eval_defs)

text \<open>
  C9, as amended: For every string field, the randomized-string transform is triggered
  whenever the incoming value contains \<open>__RND_<digits>__\<close> somewhere, between any
  prefix \<open>p\<close> and suffix \<open>s\<close>: the expression matches and the literal is never
  assigned. The digits \<open>first\<close> of the leftmost match (they are \<open>ds\<close> when no match
  starts inside the prefix) give the length: when they denote a number below \<open>2^63\<close>
  the whole value is replaced by a random string of that length; otherwise
  \<open>strconv.Atoi\<close> fails, the function returns its error and the field keeps its value.
\<close>

theorem rnd_directive_anywhere:
  assumes "kind_of (Value f) = StringK" and "ds \<noteq> []" and "list_all isDigit ds"
    and "value = p @ ''__RND_'' @ ds @ ''__'' @ s"
  shows "MatchString value
    \<and> (\<exists>first. FindStringSubmatch value = Some first \<and> first \<noteq> [] \<and> list_all isDigit first
          \<and> ((\<forall>i<length p. match_here (drop i value) = None) \<longrightarrow> first = ds)
          \<and> processValueFromString w f value =
             (if decimal first < 2 ^ 63
              then (NoError, VString (fst (RandomStr w (decimal first))),
                    snd (RandomStr w (decimal first)))
              else (Error (''error generating random string for field '' @ Name f @ '': ''
                     @ NumError ''Atoi'' first ''value out of range''), Value f, w))
          \<and> length (fst (RandomStr w (decimal first))) = nat (decimal first))"
proof -
  have m: "match_here (''__RND_'' @ ds @ ''__'' @ s) = Some ds"
    using assms(2,3) by (rule match_here_pattern)
  from FindStringSubmatch_contains [OF m, of p] assms(4)
  obtain first where f1: "FindStringSubmatch value = Some first" by auto
  from FindStringSubmatch_SomeD [OF f1] have f2: "first \<noteq> []" "list_all isDigit first" by auto
  have f3: "first = ds" if "\<forall>i<length p. match_here (drop i value) = None"
    using FindStringSubmatch_first [of p "''__RND_'' @ ds @ ''__'' @ s" ds] that m f1 assms(4)
    by simp
  from f1 have "MatchString value" by (simp add: MatchString_def)
  with f1 f2 f3 processValueFromString_rnd [OF assms(1) f1, of w] length_RandomStr
  show ?thesis by blast
qed

theorem rnd_directive_anywhere_witness:
  "MatchString ''prefix__RND_5__suffix''
   \<and> fst (processValueFromString example_world (StructField ''ClusterName'' [] (VString ''old''))
        ''prefix__RND_5__suffix'') = NoError
   \<and> fst (snd (processValueFromString example_world (StructField ''ClusterName'' [] (VString ''old''))
        ''prefix__RND_5__suffix'')) = VString ''dkryF''"
proof -
  have d: "list_all isDigit ''5''" by (simp add: isDigit_def)
  have v: "''prefix__RND_5__suffix'' = ''prefix'' @ ''__RND_'' @ ''5'' @ ''__'' @ ''suffix''" by simp
  have k: "kind_of (Value (StructField ''ClusterName'' [] (VString ''old''))) = StringK" by simp
  have n: "''5'' \<noteq> []" by simp
  from rnd_directive_anywhere [OF k n d v, of example_world]
  obtain first where m: "MatchString ''prefix__RND_5__suffix''"
    and f: "FindStringSubmatch ''prefix__RND_5__suffix'' = Some first"
    and p: "processValueFromString example_world (StructField ''ClusterName'' [] (VString ''old''))
        ''prefix__RND_5__suffix'' =
             (if decimal first < 2 ^ 63
              then (NoError, VString (fst (RandomStr example_world (decimal first))),
                    snd (RandomStr example_world (decimal first)))
              else (Error (''error generating random string for field ''
                     @ Name (StructField ''ClusterName'' [] (VString ''old'')) @ '': ''
                     @ NumError ''Atoi'' first ''value out of range''),
                    Value (StructField ''ClusterName'' [] (VString ''old'')), example_world))"
    by blast
  have "FindStringSubmatch ''prefix__RND_5__suffix'' = Some ''5''"
    by (simp add: match_here_def isDigit_def)
  with f have "first = ''5''" by simp
  moreover have "decimal ''5'' = 5" by (simp add: decimal_def digit_def)
  ultimately show ?thesis using p m by (simp add: example_random_5)
qed

text \<open>
  C9 as stated fails where the digits of the match do not fit an \<open>int\<close>: the value
  contains \<open>__RND_9223372036854775808__\<close>, the expression matches, and the field is not
  replaced by a random string: the function returns the error of \<open>strconv.Atoi\<close>.
\<close>

theorem rnd_directive_anywhere_counterexample:
  "MatchString ''prefix__RND_9223372036854775808__suffix''
   \<and> processValueFromString example_world (StructField ''ClusterName'' [] (VString ''old''))
        ''prefix__RND_9223372036854775808__suffix''
     = (Error (''error generating random string for field ClusterName: strconv.Atoi: parsing ''
          @ [CHR 0x22] @ ''9223372036854775808'' @ [CHR 0x22] @ '': value out of range''),
        VString ''old'', example_world)"
  by (simp add: eval_defs)

subsection \<open>Errors of fields\<close>

text \<open>
  C1 (the code departs from the claim): a malformed boolean default makes
  \<open>processValueFromString\<close> return its error, which names the field, but
  \<open>IntoObject\<close> returns \<open>nil\<close>: \<open>loadDefaults\<close> and \<open>loadFromEnv\<close> drop what
  \<open>load\<close> returns. The same holds for a malformed integer in the environment, inside a
  nested struct.
\<close>

theorem field_errors_are_dropped:
  "processValueFromString example_world (StructField ''B'' [(''default'', ''maybe'')] (VBool False)) ''maybe''
     = (Error (''error parsing bool value for field B: strconv.ParseBool: parsing ''
          @ [CHR 0x22] @ ''maybe'' @ [CHR 0x22] @ '': invalid syntax''), VBool False, example_world)
   \<and> IntoObject example_world
       (Pointer (VStruct [StructField ''B'' [(''default'', ''maybe'')] (VBool False)])) [] []
     = (NoError, Pointer (VStruct [StructField ''B'' [(''default'', ''maybe'')] (VBool False)]),
        example_world)
   \<and> IntoObject example_world
       (Pointer (VStruct [StructField ''Inner'' [] (VStruct [StructField ''N'' [(''env'', ''A'')] (VInt 0)])]))
       [] []
     = (NoError,
        Pointer (VStruct [StructField ''Inner'' [] (VStruct [StructField ''N'' [(''env'', ''A'')] (VInt 0)])]),
        example_world)"
  by (simp add: eval_defs)

text \<open>
  C2 (the code departs from the claim): a string field with a default and no \<open>env\<close>
  tag holds its default after the default pass and the empty string after
  \<open>IntoObject\<close>: the environment pass assigns it the stale \<open>setValue\<close>. After a
  field whose variable is set, the stale value is that variable's.
\<close>

theorem unannotated_field_is_overwritten:
  "loadDefaults example_world (Pointer (VStruct [StructField ''Name'' [(''default'', ''x'')] (VString [])]))
     = (NoError, Pointer (VStruct [StructField ''Name'' [(''default'', ''x'')] (VString ''x'')]),
        example_world)
   \<and> IntoObject example_world
       (Pointer (VStruct [StructField ''Name'' [(''default'', ''x'')] (VString [])])) [] []
     = (NoError, Pointer (VStruct [StructField ''Name'' [(''default'', ''x'')] (VString [])]),
        example_world)
   \<and> IntoObject example_world
       (Pointer (VStruct [StructField ''First'' [(''env'', ''B'')] (VString []),
                          StructField ''Name'' [(''default'', ''dflt'')] (VString [])])) [] []
     = (NoError,
        Pointer (VStruct [StructField ''First'' [(''env'', ''B'')] (VString ''x''),
                          StructField ''Name'' [(''default'', ''dflt'')] (VString ''x'')]),
        example_world)"
  by (simp add: eval_defs)

subsection \<open>What the passes leave alone\<close>

lemma same_inputs_refl: "same_inputs w w"
  by (simp add: same_inputs_def)

lemma same_inputs_trans: "same_inputs w w' \<Longrightarrow> same_inputs w' w'' \<Longrightarrow> same_inputs w w''"
  by (simp add: same_inputs_def)

lemma same_inputs_Getenv: "same_inputs w w' \<Longrightarrow> Getenv w' = Getenv w"
  by (auto simp: same_inputs_def Getenv_def fun_eq_iff)

lemma processValueFromString_inputs:
  "processValueFromString w f value = (r, v, w') \<Longrightarrow> same_inputs w w'"
  by (auto simp: processValueFromString_def same_inputs_def TempDir_def RandomStr_def Let_def
      split: if_splits sum.splits option.splits prod.splits)

lemma processValueFromString_kind:
  "processValueFromString w f value = (r, v, w') \<Longrightarrow> kind_of v = kind_of (Value f)"
  by (auto simp: processValueFromString_def Let_def Append_def
      split: if_splits sum.splits option.splits prod.splits val.splits)

lemma load_fields_not_struct:
  assumes "\<And>sub. Value f \<noteq> VStruct sub"
  shows "load_fields w (f # fs) source setValue =
     (case pick_value w source f setValue of
        (True, sv) \<Rightarrow>
          (case load_fields w fs source sv of (r, fs', w') \<Rightarrow> (r, f # fs', w'))
      | (False, sv) \<Rightarrow>
          (case processValueFromString w f sv of
             (NoError, v, w') \<Rightarrow>
               (case load_fields w' fs source sv of
                  (r, fs', w'') \<Rightarrow> (r, StructField (Name f) (Tag f) v # fs', w''))
           | (err, v, w') \<Rightarrow> (err, StructField (Name f) (Tag f) v # fs, w')))"
proof (cases f)
  case (StructField n t v)
  with assms show ?thesis by (cases v) (auto split: prod.splits result.splits)
qed

lemma fields_induct [case_names Nil Struct Leaf]:
  assumes "P []"
    and "\<And>n t sub fs. P sub \<Longrightarrow> P fs \<Longrightarrow> P (StructField n t (VStruct sub) # fs)"
    and "\<And>f fs. (\<And>sub. Value f \<noteq> VStruct sub) \<Longrightarrow> P fs \<Longrightarrow> P (f # fs)"
  shows "P fs"
proof (induction fs rule: measure_induct_rule [where f = "size_list size"])
  case (less fs)
  show ?case
  proof (cases fs)
    case Nil
    with assms(1) show ?thesis by simp
  next
    case (Cons f rest)
    have r: "P rest" using less [of rest] Cons by simp
    show ?thesis
    proof (cases f)
      case (StructField n t v)
      show ?thesis
      proof (cases "\<exists>sub. v = VStruct sub")
        case True
        then obtain sub where v: "v = VStruct sub" by blast
        have "P sub" using less [of sub] Cons StructField v by simp
        with r assms(2) Cons StructField v show ?thesis by simp
      next
        case False
        with r assms(3) [of f rest] Cons StructField show ?thesis by simp
      qed
    qed
  qed
qed

lemma load_fields_inputs:
  "load_fields w fs source sv = (r, fs', w') \<Longrightarrow> same_inputs w w'"
proof (induction fs arbitrary: w sv r fs' w' rule: fields_induct)
  case Nil
  then show ?case by (simp add: same_inputs_refl)
next
  case (Struct n t sub fs)
  obtain r1 sub1 w1 where s: "load_fields w sub source [] = (r1, sub1, w1)"
    by (cases "load_fields w sub source []") auto
  obtain r2 fs2 w2 where t: "load_fields w1 fs source sv = (r2, fs2, w2)"
    by (cases "load_fields w1 fs source sv") auto
  from Struct.IH(1) [OF s] Struct.IH(2) [OF t] Struct.prems s t show ?case
    by (auto split: if_splits intro: same_inputs_trans)
next
  case (Leaf f fs)
  obtain c sv1 where p: "pick_value w source f sv = (c, sv1)"
    by (cases "pick_value w source f sv") auto
  obtain r1 v1 w1 where q: "processValueFromString w f sv1 = (r1, v1, w1)"
    by (cases "processValueFromString w f sv1") auto
  obtain r2 fs2 w2 where t: "load_fields w1 fs source sv1 = (r2, fs2, w2)"
    by (cases "load_fields w1 fs source sv1") auto
  obtain r3 fs3 w3 where u: "load_fields w fs source sv1 = (r3, fs3, w3)"
    by (cases "load_fields w fs source sv1") auto
  from Leaf.prems Leaf.hyps p q t u Leaf.IH [OF t] Leaf.IH [OF u] processValueFromString_inputs [OF q]
  show ?case
    by (cases c; cases r1) (auto simp: load_fields_not_struct intro: same_inputs_trans)
qed

lemma load_fields_shape:
  "load_fields w fs source sv = (r, fs', w') \<Longrightarrow> map shape fs' = map shape fs"
proof (induction fs arbitrary: w sv r fs' w' rule: fields_induct)
  case Nil
  then show ?case by simp
next
  case (Struct n t sub fs)
  obtain r1 sub1 w1 where s: "load_fields w sub source [] = (r1, sub1, w1)"
    by (cases "load_fields w sub source []") auto
  obtain r2 fs2 w2 where t: "load_fields w1 fs source sv = (r2, fs2, w2)"
    by (cases "load_fields w1 fs source sv") auto
  from Struct.IH(2) [OF t] Struct.prems s t show ?case
    by (auto simp: shape_def split: if_splits)
next
  case (Leaf f fs)
  obtain c sv1 where p: "pick_value w source f sv = (c, sv1)"
    by (cases "pick_value w source f sv") auto
  obtain r1 v1 w1 where q: "processValueFromString w f sv1 = (r1, v1, w1)"
    by (cases "processValueFromString w f sv1") auto
  obtain r2 fs2 w2 where t: "load_fields w1 fs source sv1 = (r2, fs2, w2)"
    by (cases "load_fields w1 fs source sv1") auto
  obtain r3 fs3 w3 where u: "load_fields w fs source sv1 = (r3, fs3, w3)"
    by (cases "load_fields w fs source sv1") auto
  from Leaf.prems Leaf.hyps p q t u Leaf.IH [OF t] Leaf.IH [OF u] processValueFromString_kind [OF q]
  show ?case
    by (cases c; cases r1) (auto simp: load_fields_not_struct shape_def)
qed

subsection \<open>Overlays that cannot be read\<close>

lemma load_configs_append:
  "load_configs w object (xs @ ys) =
     (case load_configs w object xs of
        (NoError, object') \<Rightarrow> load_configs w object' ys
      | (r, object') \<Rightarrow> (r, object'))"
proof (induction xs arbitrary: object)
  case Nil
  then show ?case by simp
next
  case (Cons c xs)
  obtain r o1 where l: "loadYAMLFromConfigs w object c = (r, o1)"
    by (cases "loadYAMLFromConfigs w object c") auto
  with Cons show ?case by (cases r) simp_all
qed

lemma loadDefaults_NoError:
  assumes "loadDefaults w object = (NoError, o1, w1)"
  shows "\<exists>v v1. object = Pointer v \<and> o1 = Pointer v1 \<and> same_inputs w w1"
proof (cases object)
  case (Pointer v)
  show ?thesis
  proof (cases v)
    case (VStruct fs)
    obtain r fs' w' where l: "load_fields w fs ''default'' [] = (r, fs', w')"
      by (cases "load_fields w fs ''default'' []") auto
    from load_fields_inputs [OF l] assms Pointer VStruct l show ?thesis
      by (auto simp: loadDefaults_def load_object_def Elem_def load_def split: if_splits)
  qed (use assms Pointer in \<open>auto simp: loadDefaults_def load_object_def Elem_def load_def\<close>)
qed (use assms in \<open>auto simp: loadDefaults_def load_object_def Elem_def\<close>)

lemma Abs_inputs: "same_inputs w w' \<Longrightarrow> Abs w' p = Abs w p"
  by (simp add: Abs_def same_inputs_def)

lemma loadYAMLFromConfigs_inputs:
  "same_inputs w w' \<Longrightarrow> loadYAMLFromConfigs w' object name = loadYAMLFromConfigs w object name"
  by (simp add: loadYAMLFromConfigs_def pkger_Open_def same_inputs_def)

text \<open>
  C7: After the default pass and the overlays \<open>pre\<close> before it, an overlay name that
  is not in the packaged set makes \<open>IntoObject\<close> return an error that names the overlay
  (and the path looked up); a custom overlay whose resolved path \<open>Clean path\<close> does not
  exist on disk makes it return an error that names that path. In both cases the target
  and the world returned are the ones the default pass and the overlays \<open>pre\<close> left:
  no later overlay and no environment pass has run.
\<close>

theorem missing_overlay_fails:
  assumes "loadDefaults w object = (NoError, o1, w1)" and "load_configs w1 o1 pre = (NoError, o2)"
  shows "(packaged w (Join [''/configs'', name @ ''.yaml'']) = None \<longrightarrow>
            IntoObject w object (pre @ name # post) customConfig
              = (Error (''error loading config from YAML: error trying to open config '' @ name
                   @ '': open '' @ Join [''/configs'', name @ ''.yaml''] @ '': file does not exist''),
                 o2, w1))
       \<and> (customConfig \<noteq> [] \<and> workdir w = Inr dir \<and> Abs w (Join [dir, customConfig]) = Inr path
            \<and> disk w (Clean path) = None \<longrightarrow>
            IntoObject w object pre customConfig
              = (Error (''error loading custom config from YAML: open '' @ Clean path
                   @ '': no such file or directory''),
                 o2, w1))"
proof -
  from loadDefaults_NoError [OF assms(1)] obtain v where p: "object = Pointer v"
    and s: "same_inputs w w1" by blast
  have k: "TypeOf_Kind object = PtrK" using p by (simp add: TypeOf_Kind_def)
  have a: "IntoObject w object (pre @ name # post) customConfig
              = (Error (''error loading config from YAML: error trying to open config '' @ name
                   @ '': open '' @ Join [''/configs'', name @ ''.yaml''] @ '': file does not exist''),
                 o2, w1)"
    if "packaged w (Join [''/configs'', name @ ''.yaml'']) = None"
  proof -
    from that s have "packaged w1 (Join [''/configs'', name @ ''.yaml'']) = None"
      by (simp add: same_inputs_def)
    then have "loadYAMLFromConfigs w1 o2 name
        = (Error (''error trying to open config '' @ name @ '': open ''
             @ Join [''/configs'', name @ ''.yaml''] @ '': file does not exist''), o2)"
      by (simp add: loadYAMLFromConfigs_def pkger_Open_def)
    with assms(2) have "load_configs w1 o1 (pre @ name # post)
        = (Error (''error loading config from YAML: error trying to open config '' @ name
             @ '': open '' @ Join [''/configs'', name @ ''.yaml''] @ '': file does not exist''), o2)"
      by (simp add: load_configs_append)
    with assms(1) k show ?thesis by (simp add: IntoObject_def)
  qed
  have b: "IntoObject w object pre customConfig
              = (Error (''error loading custom config from YAML: open '' @ Clean path
                   @ '': no such file or directory''),
                 o2, w1)"
    if "customConfig \<noteq> []" "workdir w = Inr dir" "Abs w (Join [dir, customConfig]) = Inr path"
      "disk w (Clean path) = None"
  proof -
    from that s have "Abs w1 (Join [dir, customConfig]) = Inr path" "workdir w1 = Inr dir"
      "disk w1 (Clean path) = None"
      by (simp_all add: Abs_inputs [OF s] same_inputs_def del: Join.simps)
    then have "loadYAMLFromFile w1 o2 customConfig
        = (Error (''open '' @ Clean path @ '': no such file or directory''), o2)"
      by (simp add: loadYAMLFromFile_def ReadFile_def del: Join.simps)
    with assms k that(1) show ?thesis by (simp add: IntoObject_def)
  qed
  from a b show ?thesis by blast
qed

theorem missing_overlay_fails_witness:
  "IntoObject example_world (Pointer (VStruct [StructField ''F'' [(''env'', ''NOPE'')] (VString [])]))
      [''A'', ''C'', ''B''] ''custom.yaml''
     = (Error ''error loading config from YAML: error trying to open config C: open /configs/C.yaml: file does not exist'',
        Pointer (VStruct [StructField ''F'' [(''env'', ''NOPE'')] (VString ''fromA'')]), example_world)
   \<and> IntoObject example_world (Pointer (VStruct [StructField ''F'' [(''env'', ''NOPE'')] (VString [])]))
      [''A''] ''sub/../missing.yaml''
     = (Error ''error loading custom config from YAML: open /work/missing.yaml: no such file or directory'',
        Pointer (VStruct [StructField ''F'' [(''env'', ''NOPE'')] (VString ''fromA'')]), example_world)"
proof -
  let ?o = "Pointer (VStruct [StructField ''F'' [(''env'', ''NOPE'')] (VString [])])"
  let ?o2 = "Pointer (VStruct [StructField ''F'' [(''env'', ''NOPE'')] (VString ''fromA'')])"
  have d: "loadDefaults example_world ?o = (NoError, ?o, example_world)"
    by (simp add: eval_defs)
  have jA: "Join [''/configs'', ''A'' @ ''.yaml''] = ''/configs/A.yaml''"
    by (simp add: Clean_def strings_Join_def clean_step_def)
  have jC: "Join [''/configs'', ''C'' @ ''.yaml''] = ''/configs/C.yaml''"
    by (simp add: Clean_def strings_Join_def clean_step_def)
  have c: "load_configs example_world ?o [''A''] = (NoError, ?o2)"
    using jA
    by (simp add: loadYAMLFromConfigs_def pkger_Open_def ReadAll_def Unmarshal_def example_world_def)
  have n: "packaged example_world (Join [''/configs'', ''C'' @ ''.yaml'']) = None"
    using jC by (simp add: example_world_def)
  have j: "Join [''/work'', ''sub/../missing.yaml''] = ''/work/missing.yaml''"
    by (simp add: Clean_def strings_Join_def clean_step_def)
  have cl: "Clean ''/work/missing.yaml'' = ''/work/missing.yaml''"
    by (simp add: Clean_def strings_Join_def clean_step_def)
  have ab: "Abs example_world (Join [''/work'', ''sub/../missing.yaml'']) = Inr ''/work/missing.yaml''"
    using j cl by (simp add: Abs_def IsAbs_def)
  have wd: "workdir example_world = Inr ''/work''" by (simp add: example_world_def)
  have dk: "disk example_world (Clean ''/work/missing.yaml'') = None" by (simp add: example_world_def)
  from missing_overlay_fails [OF d c, where name = "''C''" and post = "[''B'']"
      and customConfig = "''custom.yaml''"] n
    missing_overlay_fails [OF d c, where customConfig = "''sub/../missing.yaml''"
      and dir = "''/work''" and path = "''/work/missing.yaml''"]
    wd ab dk jC cl
  show ?thesis by (simp del: Join.simps)
qed

subsection \<open>Merging a document\<close>

lemma unmarshal_shape:
  "kind_of (snd (unmarshal n v)) = kind_of v"
  "map shape (snd (mappingStruct kvs fs)) = map shape fs"
  "map shape (snd (setField k n fs)) = map shape fs"
proof (induction n v and kvs fs and k n fs rule: unmarshal_mappingStruct_setField.induct)
  case (5 k n kvs fs)
  then show ?case by (auto split: prod.splits)
next
  case (7 k n f fs)
  then show ?case by (auto simp: shape_def split: prod.splits)
qed (auto split: prod.splits)

lemma field_named_shape:
  "map shape fs' = map shape fs \<Longrightarrow>
     map_option shape (field_named k fs') = map_option shape (field_named k fs)"
proof (induction fs arbitrary: fs')
  case Nil
  then show ?case by simp
next
  case (Cons f fs)
  then obtain f' fs'' where fs': "fs' = f' # fs''" and h: "shape f' = shape f"
    and t: "map shape fs'' = map shape fs"
    by (cases fs') auto
  from h have n: "Name f' = Name f" by (simp add: shape_def)
  from Cons.IH [OF t] fs' h n show ?case by simp
qed

lemma field_named_shapeD:
  assumes "map shape fs' = map shape fs" and "field_named k fs = Some f"
  shows "\<exists>f'. field_named k fs' = Some f' \<and> Tag f' = Tag f \<and> kind_of (Value f') = kind_of (Value f)"
  using field_named_shape [OF assms(1), of k] assms(2) by (auto simp: shape_def)

lemma setField_value:
  "field_value k' (snd (setField k n fs)) =
     (if k' = k then map_option (\<lambda>v. snd (unmarshal n v)) (field_value k fs) else field_value k' fs)"
  by (induction fs) (auto simp: field_value_def split: prod.splits)

lemma mappingStruct_Cons:
  "snd (mappingStruct ((k, n) # kvs) fs) = snd (mappingStruct kvs (snd (setField k n fs)))"
  by (simp split: prod.splits)

lemma mappingStruct_absent:
  "k \<notin> fst ` set kvs \<Longrightarrow> field_value k (snd (mappingStruct kvs fs)) = field_value k fs"
proof (induction kvs arbitrary: fs)
  case Nil
  then show ?case by simp
next
  case (Cons kn kvs)
  obtain k' n where kn: "kn = (k', n)" by (cases kn)
  with Cons.prems have "k \<noteq> k'" "k \<notin> fst ` set kvs" by auto
  with Cons.IH [of "snd (setField k' n fs)"] show ?case
    unfolding kn mappingStruct_Cons by (simp add: setField_value)
qed

lemma map_of_rev_None: "map_of (rev kvs) k = None \<Longrightarrow> k \<notin> fst ` set kvs"
  by (simp add: map_of_eq_None_iff)

lemma mappingStruct_last:
  assumes "map_of (rev kvs) k = Some (YLeaf x)" and "field_value k fs = Some v0"
    and "kind_of x = kind_of v0" and "kind_of v0 \<noteq> StructK"
  shows "field_value k (snd (mappingStruct kvs fs)) = Some x"
  using assms
proof (induction kvs arbitrary: fs v0)
  case Nil
  then show ?case by simp
next
  case (Cons kn kvs)
  obtain k' n where kn: "kn = (k', n)" by (cases kn)
  let ?fs = "snd (setField k' n fs)"
  have step: "snd (mappingStruct (kn # kvs) fs) = snd (mappingStruct kvs ?fs)"
    using kn by (simp split: prod.splits)
  show ?case
  proof (cases "map_of (rev kvs) k")
    case None
    with Cons.prems(1) kn have e: "k' = k" "n = YLeaf x"
      by (auto simp: map_add_def split: if_splits)
    from None have "k \<notin> fst ` set kvs" by (rule map_of_rev_None)
    then have "field_value k (snd (mappingStruct kvs ?fs)) = field_value k ?fs"
      by (rule mappingStruct_absent)
    also have "\<dots> = Some x"
      using e Cons.prems(2,3,4) by (simp add: setField_value)
    finally show ?thesis using step by simp
  next
    case (Some m)
    with Cons.prems(1) kn have l: "map_of (rev kvs) k = Some (YLeaf x)"
      by (simp add: map_add_def)
    obtain v1 where v1: "field_value k ?fs = Some v1" "kind_of v1 = kind_of v0"
      using Cons.prems(2) by (cases "k = k'") (auto simp: setField_value unmarshal_shape)
    from Cons.IH [OF l v1(1)] v1(2) Cons.prems(3,4) step show ?thesis by simp
  qed
qed

lemma loadYAMLFromConfigs_NoError:
  assumes "loadYAMLFromConfigs w (Pointer (VStruct fs)) c = (NoError, object')"
  shows "\<exists>kvs. packaged w (Join [''/configs'', c @ ''.yaml'']) = Some (Regular (Yaml (YMap kvs)))
     \<and> object' = Pointer (VStruct (snd (mappingStruct kvs fs)))"
proof (cases "packaged w (Join [''/configs'', c @ ''.yaml''])")
  case None
  with assms show ?thesis by (simp add: loadYAMLFromConfigs_def pkger_Open_def del: Join.simps)
next
  case (Some opened)
  show ?thesis
  proof (cases opened)
    case (Unreadable cause)
    with Some assms show ?thesis
      by (simp add: loadYAMLFromConfigs_def pkger_Open_def ReadAll_def del: Join.simps)
  next
    case (Regular data)
    show ?thesis
    proof (cases data)
      case (Malformed m)
      with Some Regular assms show ?thesis
        by (simp add: loadYAMLFromConfigs_def pkger_Open_def ReadAll_def Unmarshal_def
            del: Join.simps)
    next
      case (Yaml node)
      show ?thesis
      proof (cases node)
        case (YLeaf x)
        with Some Regular Yaml assms show ?thesis
          by (simp add: loadYAMLFromConfigs_def pkger_Open_def ReadAll_def Unmarshal_def
              del: Join.simps)
      next
        case (YMap kvs)
        with Some Regular Yaml assms show ?thesis
          by (auto simp: loadYAMLFromConfigs_def pkger_Open_def ReadAll_def Unmarshal_def
              simp del: Join.simps split: prod.splits if_splits)
      qed
    qed
  qed
qed

lemma loadYAMLFromConfigs_overlay:
  assumes "loadYAMLFromConfigs w (Pointer (VStruct fs)) c = (NoError, object')"
  shows "\<exists>kvs fs'. object' = Pointer (VStruct fs') \<and> fs' = snd (mappingStruct kvs fs)
     \<and> map shape fs' = map shape fs \<and> (\<forall>k. overlay_sets w c k = map_of (rev kvs) k)"
proof -
  from loadYAMLFromConfigs_NoError [OF assms] obtain kvs where
    p: "packaged w (Join [''/configs'', c @ ''.yaml'']) = Some (Regular (Yaml (YMap kvs)))"
    and o: "object' = Pointer (VStruct (snd (mappingStruct kvs fs)))" by blast
  from p have "\<forall>k. overlay_sets w c k = map_of (rev kvs) k"
    by (simp add: overlay_sets_def del: Join.simps)
  with o show ?thesis by (intro exI [of _ kvs]) (simp add: unmarshal_shape)
qed

lemma load_configs_step:
  assumes "load_configs w object (c # cs) = (NoError, object')"
  shows "\<exists>o1. loadYAMLFromConfigs w object c = (NoError, o1) \<and> load_configs w o1 cs = (NoError, object')"
proof -
  obtain r o1 where l: "loadYAMLFromConfigs w object c = (r, o1)"
    by (cases "loadYAMLFromConfigs w object c") auto
  with assms show ?thesis by (cases r) simp_all
qed

lemma load_configs_absent:
  assumes "load_configs w (Pointer (VStruct fs)) cs = (NoError, object')"
    and "\<forall>c\<in>set cs. overlay_sets w c k = None"
  shows "\<exists>fs'. object' = Pointer (VStruct fs') \<and> map shape fs' = map shape fs
     \<and> field_value k fs' = field_value k fs"
  using assms
proof (induction cs arbitrary: fs)
  case Nil
  then show ?case by auto
next
  case (Cons c cs)
  from load_configs_step [OF Cons.prems(1)] obtain o1 where
    a: "loadYAMLFromConfigs w (Pointer (VStruct fs)) c = (NoError, o1)"
    and b: "load_configs w o1 cs = (NoError, object')" by blast
  from loadYAMLFromConfigs_overlay [OF a] obtain kvs fs1 where
    o1: "o1 = Pointer (VStruct fs1)" and fs1: "fs1 = snd (mappingStruct kvs fs)"
    and sh: "map shape fs1 = map shape fs" and ov: "\<forall>k. overlay_sets w c k = map_of (rev kvs) k"
    by blast
  from ov Cons.prems(2) have "map_of (rev kvs) k = None" by simp
  then have "k \<notin> fst ` set kvs" by (rule map_of_rev_None)
  then have v: "field_value k fs1 = field_value k fs" unfolding fs1 by (rule mappingStruct_absent)
  from Cons.IH [of fs1] b o1 Cons.prems(2) obtain fs' where
    "object' = Pointer (VStruct fs')" "map shape fs' = map shape fs1"
    "field_value k fs' = field_value k fs1" by auto
  with sh v show ?case by simp
qed

lemma load_configs_shape:
  assumes "load_configs w (Pointer (VStruct fs)) cs = (NoError, object')"
  shows "\<exists>fs'. object' = Pointer (VStruct fs') \<and> map shape fs' = map shape fs"
  using assms
proof (induction cs arbitrary: fs)
  case Nil
  then show ?case by auto
next
  case (Cons c cs)
  from load_configs_step [OF Cons.prems(1)] obtain o1 where
    a: "loadYAMLFromConfigs w (Pointer (VStruct fs)) c = (NoError, o1)"
    and b: "load_configs w o1 cs = (NoError, object')" by blast
  from loadYAMLFromConfigs_overlay [OF a] obtain fs1 where
    o1: "o1 = Pointer (VStruct fs1)" and sh: "map shape fs1 = map shape fs" by blast
  from Cons.IH [of fs1] b o1 obtain fs' where
    "object' = Pointer (VStruct fs')" "map shape fs' = map shape fs1" by auto
  with sh show ?case by simp
qed

lemma load_configs_split:
  assumes "load_configs w object (pre @ b # post) = (NoError, object')"
  shows "\<exists>o1 o2. load_configs w object pre = (NoError, o1)
     \<and> loadYAMLFromConfigs w o1 b = (NoError, o2) \<and> load_configs w o2 post = (NoError, object')"
proof -
  obtain r o1 where l: "load_configs w object pre = (r, o1)"
    by (cases "load_configs w object pre") auto
  with assms have r: "r = NoError" by (cases r) (simp_all add: load_configs_append)
  with l assms have "load_configs w o1 (b # post) = (NoError, object')"
    by (simp add: load_configs_append)
  from load_configs_step [OF this] l r show ?thesis by blast
qed

lemma load_configs_last_writer:
  assumes run: "load_configs w (Pointer (VStruct fs)) (pre @ b # post) = (NoError, object')"
    and f: "field_named k fs = Some f" "kind_of (Value f) \<noteq> StructK"
    and b: "overlay_sets w b k = Some (YLeaf x)" "kind_of x = kind_of (Value f)"
    and post: "\<forall>c\<in>set post. overlay_sets w c k = None"
  shows "\<exists>fs'. object' = Pointer (VStruct fs') \<and> map shape fs' = map shape fs
     \<and> field_value k fs' = Some x"
proof -
  from load_configs_split [OF run] obtain o1 o2 where
    l1: "load_configs w (Pointer (VStruct fs)) pre = (NoError, o1)"
    and l2: "loadYAMLFromConfigs w o1 b = (NoError, o2)"
    and l3: "load_configs w o2 post = (NoError, object')" by blast
  from load_configs_shape [OF l1] obtain fs1 where
    o1: "o1 = Pointer (VStruct fs1)" and s1: "map shape fs1 = map shape fs" by blast
  from field_named_shapeD [OF s1 f(1)] obtain f1 where
    f1: "field_named k fs1 = Some f1" "kind_of (Value f1) = kind_of (Value f)" by blast
  from loadYAMLFromConfigs_overlay [OF l2 [unfolded o1]] obtain kvs fs2 where
    o2: "o2 = Pointer (VStruct fs2)" and fs2: "fs2 = snd (mappingStruct kvs fs1)"
    and s2: "map shape fs2 = map shape fs1" and ov: "\<forall>k. overlay_sets w b k = map_of (rev kvs) k"
    by blast
  from ov b(1) have m: "map_of (rev kvs) k = Some (YLeaf x)" by simp
  have "field_value k fs1 = Some (Value f1)" using f1(1) by (simp add: field_value_def)
  from mappingStruct_last [OF m this] f1(2) b(2) f(2) have v2: "field_value k fs2 = Some x"
    unfolding fs2 by simp
  from load_configs_absent [OF l3 [unfolded o2] post] obtain fs' where
    "object' = Pointer (VStruct fs')" "map shape fs' = map shape fs2"
    "field_value k fs' = field_value k fs2" by blast
  with v2 s2 s1 show ?thesis by simp
qed

subsection \<open>The environment pass\<close>

lemma pick_value_env_unset:
  assumes "Lookup (Tag f) EnvVarTag = (e, True)" and "Getenv w e = []"
  shows "pick_value w ''env'' f sv = (True, [])"
  using assms by (simp add: pick_value_def)

lemma pick_value_env_set:
  assumes "Lookup (Tag f) EnvVarTag = (e, True)" and "Getenv w e \<noteq> []"
  shows "pick_value w ''env'' f sv = (False, Getenv w e)"
  using assms by (simp add: pick_value_def)

lemma env_pass_frame:
  assumes "load_fields w fs ''env'' sv = (r, fs', w')" and "field_named k fs = Some f"
    and "kind_of (Value f) \<noteq> StructK" and "Lookup (Tag f) EnvVarTag = (e, True)"
    and "Getenv w e = []"
  shows "field_named k fs' = Some f"
  using assms(1,2,5)
proof (induction fs arbitrary: w sv r fs' w' rule: fields_induct)
  case Nil
  then show ?case by simp
next
  case (Struct n t sub fs)
  from Struct.prems(2) assms(3) have ne: "n \<noteq> k" and fn: "field_named k fs = Some f"
    by (auto split: if_splits)
  obtain r1 sub1 w1 where s: "load_fields w sub ''env'' [] = (r1, sub1, w1)"
    by (cases "load_fields w sub ''env'' []") auto
  obtain r2 fs2 w2 where t: "load_fields w1 fs ''env'' sv = (r2, fs2, w2)"
    by (cases "load_fields w1 fs ''env'' sv") auto
  have "Getenv w1 e = []"
    using same_inputs_Getenv [OF load_fields_inputs [OF s]] Struct.prems(3) by simp
  from Struct.IH(2) [OF t fn this] have "field_named k fs2 = Some f" .
  with Struct.prems(1) s t ne fn show ?case by (auto split: if_splits)
next
  case (Leaf g fs)
  show ?case
  proof (cases "Name g = k")
    case True
    with Leaf.prems(2) have g: "g = f" by simp
    obtain r3 fs3 w3 where u: "load_fields w fs ''env'' [] = (r3, fs3, w3)"
      by (cases "load_fields w fs ''env'' []") auto
    from Leaf.prems(1) Leaf.hyps g u pick_value_env_unset [OF assms(4) Leaf.prems(3), of sv] True
    show ?thesis by (auto simp: load_fields_not_struct)
  next
    case False
    with Leaf.prems(2) have fn: "field_named k fs = Some f" by simp
    obtain c sv1 where p: "pick_value w ''env'' g sv = (c, sv1)"
      by (cases "pick_value w ''env'' g sv") auto
    obtain r1 v1 w1 where q: "processValueFromString w g sv1 = (r1, v1, w1)"
      by (cases "processValueFromString w g sv1") auto
    obtain r2 fs2 w2 where t: "load_fields w1 fs ''env'' sv1 = (r2, fs2, w2)"
      by (cases "load_fields w1 fs ''env'' sv1") auto
    obtain r3 fs3 w3 where u: "load_fields w fs ''env'' sv1 = (r3, fs3, w3)"
      by (cases "load_fields w fs ''env'' sv1") auto
    have "Getenv w1 e = []"
      using same_inputs_Getenv [OF processValueFromString_inputs [OF q]] Leaf.prems(3) by simp
    from Leaf.IH [OF t fn this] Leaf.IH [OF u fn Leaf.prems(3)]
      Leaf.prems(1) Leaf.hyps p q t u False fn
    show ?thesis
      by (cases c; cases r1) (auto simp: load_fields_not_struct)
  qed
qed

lemma loadDefaults_struct:
  assumes "loadDefaults w (Pointer (VStruct fs0)) = (NoError, o1, w1)"
  shows "\<exists>fs1. o1 = Pointer (VStruct fs1) \<and> map shape fs1 = map shape fs0 \<and> same_inputs w w1"
proof -
  obtain r fs' w' where l: "load_fields w fs0 ''default'' [] = (r, fs', w')"
    by (cases "load_fields w fs0 ''default'' []") auto
  from load_fields_inputs [OF l] load_fields_shape [OF l] assms l show ?thesis
    by (auto simp: loadDefaults_def load_object_def Elem_def load_def split: if_splits)
qed

lemma loadFromEnv_struct:
  assumes "loadFromEnv w (Pointer (VStruct fs)) = (r, object', w')"
  shows "\<exists>r0 fs'. load_fields w fs ''env'' [] = (r0, fs', w') \<and> object' = Pointer (VStruct fs')"
proof -
  obtain r0 fs' w0 where l: "load_fields w fs ''env'' [] = (r0, fs', w0)"
    by (cases "load_fields w fs ''env'' []") auto
  with assms show ?thesis
    by (auto simp: loadFromEnv_def load_object_def Elem_def load_def split: if_splits)
qed

lemma IntoObject_NoError:
  assumes "IntoObject w object configs customConfig = (NoError, object', w')"
  shows "\<exists>o1 w1 o2 o3. loadDefaults w object = (NoError, o1, w1)
     \<and> load_configs w1 o1 configs = (NoError, o2)
     \<and> (if customConfig \<noteq> [] then loadYAMLFromFile w1 o2 customConfig else (NoError, o2)) = (NoError, o3)
     \<and> loadFromEnv w1 o3 = (NoError, object', w')"
proof -
  obtain r1 o1 w1 where d: "loadDefaults w object = (r1, o1, w1)"
    by (cases "loadDefaults w object") auto
  obtain r2 o2 where c: "load_configs w1 o1 configs = (r2, o2)"
    by (cases "load_configs w1 o1 configs") auto
  obtain r3 o3 where y: "(if customConfig \<noteq> [] then loadYAMLFromFile w1 o2 customConfig
      else (NoError, o2)) = (r3, o3)"
    by (cases "if customConfig \<noteq> [] then loadYAMLFromFile w1 o2 customConfig else (NoError, o2)") auto
  obtain r4 o4 w4 where e: "loadFromEnv w1 o3 = (r4, o4, w4)"
    by (cases "loadFromEnv w1 o3") auto
  have k: "TypeOf_Kind object = PtrK" using assms by (auto simp: IntoObject_def split: if_splits)
  from assms k d have r1: "r1 = NoError" by (cases r1) (simp_all add: IntoObject_def)
  from assms k d c r1 have r2: "r2 = NoError" by (cases r2) (simp_all add: IntoObject_def)
  from assms k d c y r1 r2 have r3: "r3 = NoError" by (cases r3) (simp_all add: IntoObject_def)
  from assms k d c y e r1 r2 r3 have "r4 = NoError \<and> o4 = object' \<and> w4 = w'"
    by (cases r4) (simp_all add: IntoObject_def)
  with d c y e r1 r2 r3 show ?thesis by simp
qed

lemma overlay_sets_inputs: "same_inputs w w' \<Longrightarrow> overlay_sets w' c k = overlay_sets w c k"
  by (simp add: overlay_sets_def same_inputs_def del: Join.simps)

text \<open>
  Where the environment pass leaves a field alone, the last overlay decides. Take a field
  \<open>k\<close> of the target struct whose variable is declared and not set, and a run of
  \<open>IntoObject\<close> without a custom overlay that succeeds. When the list is \<open>pre\<close>,
  then \<open>b\<close>, then \<open>post\<close>, the overlay \<open>b\<close> sets the field to \<open>x\<close> and no
  overlay of \<open>post\<close> has the key, the resolved value is \<open>x\<close>, whatever the overlays of
  \<open>pre\<close> set. When no overlay of the list has the key, the field keeps the value the
  default pass left.
\<close>

theorem overlays_merge_in_order:
  assumes run: "IntoObject w (Pointer (VStruct fs0)) configs [] = (NoError, object', w')"
    and fld: "field_named k fs0 = Some f0" "kind_of (Value f0) \<noteq> StructK"
    and env: "Lookup (Tag f0) EnvVarTag = (e, True)" "Getenv w e = []"
  shows "(configs = pre @ b # post \<and> overlay_sets w b k = Some (YLeaf x)
          \<and> kind_of x = kind_of (Value f0) \<and> (\<forall>c\<in>set post. overlay_sets w c k = None)
        \<longrightarrow> (\<exists>fs'. object' = Pointer (VStruct fs') \<and> field_value k fs' = Some x))
    \<and> ((\<forall>c\<in>set configs. overlay_sets w c k = None)
        \<longrightarrow> (\<exists>fs1 w1 fs'. loadDefaults w (Pointer (VStruct fs0)) = (NoError, Pointer (VStruct fs1), w1)
              \<and> object' = Pointer (VStruct fs') \<and> field_value k fs' = field_value k fs1))"
proof -
  from IntoObject_NoError [OF run] obtain o1 w1 o2 where
    d: "loadDefaults w (Pointer (VStruct fs0)) = (NoError, o1, w1)"
    and c: "load_configs w1 o1 configs = (NoError, o2)"
    and v: "loadFromEnv w1 o2 = (NoError, object', w')" by auto
  from loadDefaults_struct [OF d] obtain fs1 where o1: "o1 = Pointer (VStruct fs1)"
    and s1: "map shape fs1 = map shape fs0" and i1: "same_inputs w w1" by blast
  from field_named_shapeD [OF s1 fld(1)] obtain f1 where f1: "field_named k fs1 = Some f1"
    "Tag f1 = Tag f0" "kind_of (Value f1) = kind_of (Value f0)" by blast
  have ov: "overlay_sets w1 c k = overlay_sets w c k" for c
    using i1 by (rule overlay_sets_inputs)
  have g: "Getenv w1 e = []" using same_inputs_Getenv [OF i1] env(2) by simp
  have frame: "\<exists>fs'. object' = Pointer (VStruct fs') \<and> field_value k fs' = field_value k fs2"
    if "o2 = Pointer (VStruct fs2)" "map shape fs2 = map shape fs1" for fs2
  proof -
    from field_named_shapeD [OF that(2) f1(1)] obtain f2 where f2: "field_named k fs2 = Some f2"
      "Tag f2 = Tag f1" "kind_of (Value f2) = kind_of (Value f1)" by blast
    from loadFromEnv_struct [OF v [unfolded that(1)]] obtain r0 fs' where
      l: "load_fields w1 fs2 ''env'' [] = (r0, fs', w')" and o: "object' = Pointer (VStruct fs')"
      by blast
    have "field_named k fs' = Some f2"
      using env_pass_frame [OF l f2(1)] f2 f1 fld(2) env(1) g by simp
    with f2(1) o show ?thesis by (simp add: field_value_def)
  qed
  have a: "\<exists>fs'. object' = Pointer (VStruct fs') \<and> field_value k fs' = Some x"
    if "configs = pre @ b # post" "overlay_sets w b k = Some (YLeaf x)"
      "kind_of x = kind_of (Value f0)" "\<forall>c\<in>set post. overlay_sets w c k = None"
  proof -
    from load_configs_last_writer [OF c [unfolded o1 that(1)] f1(1), of x] that f1 fld(2) ov
    obtain fs2 where "o2 = Pointer (VStruct fs2)" "map shape fs2 = map shape fs1"
      "field_value k fs2 = Some x" by auto
    with frame [of fs2] show ?thesis by auto
  qed
  have b: "\<exists>fs1 w1 fs'. loadDefaults w (Pointer (VStruct fs0)) = (NoError, Pointer (VStruct fs1), w1)
       \<and> object' = Pointer (VStruct fs') \<and> field_value k fs' = field_value k fs1"
    if "\<forall>c\<in>set configs. overlay_sets w c k = None"
  proof -
    from load_configs_absent [OF c [unfolded o1], of k] that ov
    obtain fs2 where "o2 = Pointer (VStruct fs2)" "map shape fs2 = map shape fs1"
      "field_value k fs2 = field_value k fs1" by auto
    with frame [of fs2] d o1 show ?thesis by auto
  qed
  from a b show ?thesis by blast
qed

theorem overlays_merge_in_order_witness:
  "IntoObject example_world
      (Pointer (VStruct [StructField ''F'' [(''default'', ''d''), (''env'', ''NOPE'')] (VString []),
                         StructField ''G'' [(''default'', ''g''), (''env'', ''NOPE'')] (VString [])]))
      [''A'', ''B''] []
     = (NoError,
        Pointer (VStruct [StructField ''F'' [(''default'', ''d''), (''env'', ''NOPE'')] (VString ''fromB''),
                          StructField ''G'' [(''default'', ''g''), (''env'', ''NOPE'')] (VString ''g'')]),
        example_world)
   \<and> field_value ''F'' [StructField ''F'' [(''default'', ''d''), (''env'', ''NOPE'')] (VString ''fromB''),
                          StructField ''G'' [(''default'', ''g''), (''env'', ''NOPE'')] (VString ''g'')]
       = Some (VString ''fromB'')
   \<and> field_value ''G'' [StructField ''F'' [(''default'', ''d''), (''env'', ''NOPE'')] (VString ''fromB''),
                          StructField ''G'' [(''default'', ''g''), (''env'', ''NOPE'')] (VString ''g'')]
       = Some (VString ''g'')"
proof -
  let ?F = "StructField ''F'' [(''default'', ''d''), (''env'', ''NOPE'')] (VString [])"
  let ?G = "StructField ''G'' [(''default'', ''g''), (''env'', ''NOPE'')] (VString [])"
  let ?fs' = "[StructField ''F'' [(''default'', ''d''), (''env'', ''NOPE'')] (VString ''fromB''),
               StructField ''G'' [(''default'', ''g''), (''env'', ''NOPE'')] (VString ''g'')]"
  have run: "IntoObject example_world (Pointer (VStruct [?F, ?G])) [''A'', ''B''] []
      = (NoError, Pointer (VStruct ?fs'), example_world)"
    by (simp add: eval_defs yaml_eval_defs)
  have d: "loadDefaults example_world (Pointer (VStruct [?F, ?G]))
      = (NoError,
         Pointer (VStruct [StructField ''F'' [(''default'', ''d''), (''env'', ''NOPE'')] (VString ''d''),
                           StructField ''G'' [(''default'', ''g''), (''env'', ''NOPE'')] (VString ''g'')]),
         example_world)"
    by (simp add: eval_defs)
  have fF: "field_named ''F'' [?F, ?G] = Some ?F" by simp
  have fG: "field_named ''G'' [?F, ?G] = Some ?G" by simp
  have kF: "kind_of (Value ?F) \<noteq> StructK" by simp
  have kG: "kind_of (Value ?G) \<noteq> StructK" by simp
  have eF: "Lookup (Tag ?F) EnvVarTag = (''NOPE'', True)" by (simp add: Lookup_def EnvVarTag_def)
  have eG: "Lookup (Tag ?G) EnvVarTag = (''NOPE'', True)" by (simp add: Lookup_def EnvVarTag_def)
  have g: "Getenv example_world ''NOPE'' = []" by (simp add: Getenv_def example_world_def)
  have b: "overlay_sets example_world ''B'' ''F'' = Some (YLeaf (VString ''fromB''))"
    by (simp add: yaml_eval_defs example_world_def)
  have nG: "\<forall>c\<in>set [''A'', ''B'']. overlay_sets example_world c ''G'' = None"
    by (simp add: yaml_eval_defs example_world_def)
  from overlays_merge_in_order [OF run fF kF eF g, where pre = "[''A'']" and b = "''B''"
      and post = "[]" and x = "VString ''fromB''"] b
  have 1: "field_value ''F'' ?fs' = Some (VString ''fromB'')"
    by auto
  from overlays_merge_in_order [OF run fG kG eG g, where pre = "[]" and b = "[]"
      and post = "[]" and x = "VString []"] nG d
  have 2: "field_value ''G'' ?fs' = Some (VString ''g'')"
    by (auto simp: field_value_def)
  from run 1 2 show ?thesis by blast
qed

text \<open>
  C6 (the code departs from the claim): the overlays \<open>A\<close> and \<open>B\<close> both set the field
  \<open>F\<close>, which has a default and no \<open>env\<close> tag. The loop over the overlays leaves it
  with the value of \<open>B\<close>, the last writer; but the resolved value is not that value:
  the environment pass then assigns the field its stale \<open>setValue\<close>, the empty string.
\<close>

theorem overlay_value_is_overwritten:
  "load_configs example_world
      (Pointer (VStruct [StructField ''F'' [(''default'', ''d'')] (VString ''d'')])) [''A'', ''B'']
     = (NoError, Pointer (VStruct [StructField ''F'' [(''default'', ''d'')] (VString ''fromB'')]))
   \<and> IntoObject example_world
      (Pointer (VStruct [StructField ''F'' [(''default'', ''d'')] (VString [])])) [''A'', ''B''] []
     = (NoError, Pointer (VStruct [StructField ''F'' [(''default'', ''d'')] (VString [])]),
        example_world)"
  by (simp add: eval_defs yaml_eval_defs)

subsection \<open>What the environment pass assigns\<close>

lemma env_pass_assigns:
  assumes "load_fields w fs ''env'' sv = (NoError, fs', w')" and "i < length fs"
    and "kind_of (Value (fs ! i)) \<noteq> StructK" and "Lookup (Tag (fs ! i)) EnvVarTag = (e, True)"
    and "Getenv w e \<noteq> []"
  shows "\<exists>wa wb. processValueFromString wa (fs ! i) (Getenv w e) = (NoError, Value (fs' ! i), wb)"
  using assms
proof (induction fs arbitrary: w sv fs' w' i rule: fields_induct)
  case Nil
  then show ?case by simp
next
  case (Struct n t sub fs)
  from Struct.prems(2,3) obtain j where i: "i = Suc j" "j < length fs"
    by (cases i) auto
  obtain r1 sub1 w1 where s: "load_fields w sub ''env'' [] = (r1, sub1, w1)"
    by (cases "load_fields w sub ''env'' []") auto
  obtain r2 fs2 w2 where t: "load_fields w1 fs ''env'' sv = (r2, fs2, w2)"
    by (cases "load_fields w1 fs ''env'' sv") auto
  from Struct.prems(1) s t have a: "r2 = NoError" "fs' = StructField n t (VStruct sub1) # fs2"
    by (auto split: if_splits)
  have g: "Getenv w1 = Getenv w" using same_inputs_Getenv [OF load_fields_inputs [OF s]] .
  from Struct.IH(2) [OF t [unfolded a(1)] i(2)] Struct.prems(3,4,5) i g a(2)
  show ?case by simp
next
  case (Leaf f fs)
  obtain c sv1 where p: "pick_value w ''env'' f sv = (c, sv1)"
    by (cases "pick_value w ''env'' f sv") auto
  obtain r1 v1 w1 where q: "processValueFromString w f sv1 = (r1, v1, w1)"
    by (cases "processValueFromString w f sv1") auto
  obtain r2 fs2 w2 where t: "load_fields w1 fs ''env'' sv1 = (r2, fs2, w2)"
    by (cases "load_fields w1 fs ''env'' sv1") auto
  obtain r3 fs3 w3 where u: "load_fields w fs ''env'' sv1 = (r3, fs3, w3)"
    by (cases "load_fields w fs ''env'' sv1") auto
  have g: "Getenv w1 = Getenv w" using same_inputs_Getenv [OF processValueFromString_inputs [OF q]] .
  show ?case
  proof (cases i)
    case 0
    with Leaf.prems(4,5) have pv: "pick_value w ''env'' f sv = (False, Getenv w e)"
      by (simp add: pick_value_env_set)
    with p have c: "c = False" "sv1 = Getenv w e" by simp_all
    from Leaf.prems(1) Leaf.hyps p q t c have "r1 = NoError" "fs' = StructField (Name f) (Tag f) v1 # fs2"
      by (cases r1; simp add: load_fields_not_struct)+
    with q c 0 show ?thesis by auto
  next
    case (Suc j)
    with Leaf.prems(2) have j: "j < length fs" by simp
    show ?thesis
    proof (cases c)
      case True
      with Leaf.prems(1) Leaf.hyps p u have a: "r3 = NoError" "fs' = f # fs3"
        by (simp_all add: load_fields_not_struct)
      from Leaf.IH [OF u [unfolded a(1)] j] Leaf.prems(3,4,5) Suc a(2) show ?thesis by simp
    next
      case False
      with Leaf.prems(1) Leaf.hyps p q t have a: "r1 = NoError" "r2 = NoError"
        "fs' = StructField (Name f) (Tag f) v1 # fs2"
        by (cases r1; simp add: load_fields_not_struct)+
      from Leaf.IH [OF t [unfolded a(2)] j] Leaf.prems(3,4,5) Suc a(3) g show ?thesis by simp
    qed
  qed
qed

lemma processValueFromString_string:
  assumes "kind_of (Value f) = StringK" and "processValueFromString w f value = (NoError, v, w')"
  shows "\<exists>s. v = VString s \<and> (value \<noteq> ''__TMP_DIR__'' \<and> \<not> MatchString value \<longrightarrow> s = value)"
  using assms
  by (auto simp: processValueFromString_def split: sum.splits prod.splits if_splits)

lemma load_fields_length:
  "load_fields w fs source sv = (r, fs', w') \<Longrightarrow> length fs' = length fs"
  using load_fields_shape [of w fs source sv r fs' w'] by (metis length_map)

lemma shape_nth:
  assumes "map shape fs' = map shape fs" and "i < length fs"
  shows "Name (fs' ! i) = Name (fs ! i) \<and> Tag (fs' ! i) = Tag (fs ! i)
     \<and> kind_of (Value (fs' ! i)) = kind_of (Value (fs ! i))"
proof -
  from assms have "length fs' = length fs" by (metis length_map)
  with assms have "shape (fs' ! i) = shape (fs ! i)" by (metis nth_map)
  then show ?thesis by (simp add: shape_def)
qed

lemma Unmarshal_struct:
  assumes "Unmarshal data (Pointer (VStruct fs)) = (NoError, object')"
  shows "\<exists>fs'. object' = Pointer (VStruct fs') \<and> map shape fs' = map shape fs"
proof (cases data)
  case (Malformed m)
  with assms show ?thesis by (simp add: Unmarshal_def)
next
  case (Yaml node)
  show ?thesis
  proof (cases node)
    case (YLeaf x)
    with Yaml assms show ?thesis by (simp add: Unmarshal_def)
  next
    case (YMap kvs)
    with Yaml assms have "object' = Pointer (VStruct (snd (mappingStruct kvs fs)))"
      by (auto simp: Unmarshal_def split: prod.splits if_splits)
    then show ?thesis by (simp add: unmarshal_shape)
  qed
qed

lemma loadYAMLFromFile_struct:
  assumes "loadYAMLFromFile w (Pointer (VStruct fs)) name = (NoError, object')"
  shows "\<exists>fs'. object' = Pointer (VStruct fs') \<and> map shape fs' = map shape fs"
proof -
  from assms obtain data where "Unmarshal data (Pointer (VStruct fs)) = (NoError, object')"
    by (auto simp: loadYAMLFromFile_def simp del: Join.simps split: sum.splits)
  then show ?thesis by (rule Unmarshal_struct)
qed

lemma before_env_NoError:
  assumes "before_env w object configs customConfig = (NoError, o3, w1)"
  shows "\<exists>o1 o2. loadDefaults w object = (NoError, o1, w1)
     \<and> load_configs w1 o1 configs = (NoError, o2)
     \<and> (if customConfig \<noteq> [] then loadYAMLFromFile w1 o2 customConfig else (NoError, o2)) = (NoError, o3)"
proof -
  obtain r1 o1 w1' where d: "loadDefaults w object = (r1, o1, w1')"
    by (cases "loadDefaults w object") auto
  obtain r2 o2 where c: "load_configs w1' o1 configs = (r2, o2)"
    by (cases "load_configs w1' o1 configs") auto
  obtain r3 o3' where y: "(if customConfig \<noteq> [] then loadYAMLFromFile w1' o2 customConfig
      else (NoError, o2)) = (r3, o3')"
    by (cases "if customConfig \<noteq> [] then loadYAMLFromFile w1' o2 customConfig else (NoError, o2)") auto
  have k: "TypeOf_Kind object = PtrK" using assms by (auto simp: before_env_def split: if_splits)
  from assms k d have r1: "r1 = NoError" by (cases r1) (simp_all add: before_env_def)
  from assms k d c r1 have r2: "r2 = NoError" by (cases r2) (simp_all add: before_env_def)
  from assms k d c y r1 r2 have "r3 = NoError \<and> o3' = o3 \<and> w1' = w1"
    by (cases r3) (simp_all add: before_env_def)
  with d c y r1 r2 show ?thesis by auto
qed

lemma before_env_struct:
  assumes "before_env w (Pointer (VStruct fs0)) configs customConfig = (NoError, o3, w1)"
  shows "\<exists>fs. o3 = Pointer (VStruct fs) \<and> map shape fs = map shape fs0 \<and> same_inputs w w1"
proof -
  from before_env_NoError [OF assms] obtain o1 o2 where
    d: "loadDefaults w (Pointer (VStruct fs0)) = (NoError, o1, w1)"
    and c: "load_configs w1 o1 configs = (NoError, o2)"
    and y: "(if customConfig \<noteq> [] then loadYAMLFromFile w1 o2 customConfig else (NoError, o2))
      = (NoError, o3)" by blast
  from loadDefaults_struct [OF d] obtain fs1 where o1: "o1 = Pointer (VStruct fs1)"
    and s1: "map shape fs1 = map shape fs0" and i1: "same_inputs w w1" by blast
  from load_configs_shape [OF c [unfolded o1]] obtain fs2 where o2: "o2 = Pointer (VStruct fs2)"
    and s2: "map shape fs2 = map shape fs1" by blast
  have "\<exists>fs. o3 = Pointer (VStruct fs) \<and> map shape fs = map shape fs2"
  proof (cases "customConfig = []")
    case True
    with y o2 show ?thesis by auto
  next
    case False
    with y o2 have "loadYAMLFromFile w1 (Pointer (VStruct fs2)) customConfig = (NoError, o3)" by simp
    then show ?thesis by (rule loadYAMLFromFile_struct)
  qed
  with s1 s2 i1 show ?thesis by auto
qed

lemma IntoObject_after_before_env:
  assumes "before_env w object configs customConfig = (NoError, o3, w1)"
    and "loadFromEnv w1 o3 = (NoError, o4, w4)"
  shows "IntoObject w object configs customConfig = (NoError, o4, w4)"
proof -
  from before_env_NoError [OF assms(1)] obtain o1 o2 where
    d: "loadDefaults w object = (NoError, o1, w1)"
    and c: "load_configs w1 o1 configs = (NoError, o2)"
    and y: "(if customConfig \<noteq> [] then loadYAMLFromFile w1 o2 customConfig else (NoError, o2))
      = (NoError, o3)" by blast
  have k: "TypeOf_Kind object = PtrK" using assms(1) by (auto simp: before_env_def split: if_splits)
  from k d c y assms(2) show ?thesis by (simp add: IntoObject_def)
qed

text \<open>
  What the environment pass does where it meets no parse error. Take a run in which the
  passes before the environment pass succeed and leave the target struct with the fields
  \<open>fs\<close>, and in which the environment pass over these fields returns \<open>nil\<close>. Then
  \<open>IntoObject\<close> succeeds, and a field that is not a struct and declares a variable that
  is set to a non-empty string holds afterwards the boolean or the integer the string
  parses to, or the string (for a directive, the generated string). To a
  sequence-of-string field the pieces of the value are appended.
\<close>

theorem environment_overrides:
  assumes pre: "before_env w (Pointer (VStruct fs0)) configs customConfig = (NoError, Pointer (VStruct fs), w1)"
    and pass: "load_fields w1 fs ''env'' [] = (NoError, fs', w2)"
    and fld: "i < length fs0" "kind_of (Value (fs0 ! i)) \<noteq> StructK"
    and env: "Lookup (Tag (fs0 ! i)) EnvVarTag = (e, True)" "Getenv w e \<noteq> []"
  shows "IntoObject w (Pointer (VStruct fs0)) configs customConfig = (NoError, Pointer (VStruct fs'), w2)
    \<and> Name (fs' ! i) = Name (fs0 ! i)
    \<and> (kind_of (Value (fs0 ! i)) = BoolK \<longrightarrow>
          (\<exists>b. ParseBool (Getenv w e) = Inr b \<and> Value (fs' ! i) = VBool b))
    \<and> (kind_of (Value (fs0 ! i)) = IntK \<longrightarrow>
          (\<exists>n. ParseInt (Getenv w e) = Inr n \<and> Value (fs' ! i) = VInt n))
    \<and> (kind_of (Value (fs0 ! i)) = Int64K \<longrightarrow>
          (\<exists>n. ParseInt (Getenv w e) = Inr n \<and> Value (fs' ! i) = VInt64 n))
    \<and> (kind_of (Value (fs0 ! i)) = StringK \<longrightarrow>
          (\<exists>s. Value (fs' ! i) = VString s
             \<and> (Getenv w e \<noteq> ''__TMP_DIR__'' \<and> \<not> MatchString (Getenv w e) \<longrightarrow> s = Getenv w e)))
    \<and> (\<forall>xs. Value (fs ! i) = VSlice xs \<longrightarrow>
          Value (fs' ! i) = VSlice (xs @ Split (Getenv w e) (CHR '','')))"
proof -
  from before_env_struct [OF pre] have sh: "map shape fs = map shape fs0" and si: "same_inputs w w1"
    by auto
  from sh have len: "length fs = length fs0" by (metis length_map)
  from shape_nth [OF sh fld(1)] have n: "Name (fs ! i) = Name (fs0 ! i)"
    and tg: "Tag (fs ! i) = Tag (fs0 ! i)" and kd: "kind_of (Value (fs ! i)) = kind_of (Value (fs0 ! i))"
    by auto
  have g: "Getenv w1 = Getenv w" using si by (rule same_inputs_Getenv)
  from env_pass_assigns [OF pass, of i e] fld len tg kd env g obtain wa wb where
    pv: "processValueFromString wa (fs ! i) (Getenv w e) = (NoError, Value (fs' ! i), wb)"
    by auto
  have "loadFromEnv w1 (Pointer (VStruct fs)) = (NoError, Pointer (VStruct fs'), w2)"
    using pass by (simp add: loadFromEnv_def load_object_def Elem_def load_def)
  from IntoObject_after_before_env [OF pre this]
  have 1: "IntoObject w (Pointer (VStruct fs0)) configs customConfig = (NoError, Pointer (VStruct fs'), w2)" .
  from shape_nth [OF load_fields_shape [OF pass]] fld(1) len n
  have 2: "Name (fs' ! i) = Name (fs0 ! i)" by simp
  have 3: "\<exists>b. ParseBool (Getenv w e) = Inr b \<and> Value (fs' ! i) = VBool b"
    if "kind_of (Value (fs0 ! i)) = BoolK"
    using pv that kd by (auto simp: processValueFromString_def split: sum.splits)
  have 4: "\<exists>n. ParseInt (Getenv w e) = Inr n \<and> Value (fs' ! i) = VInt n"
    if "kind_of (Value (fs0 ! i)) = IntK"
    using pv that kd by (auto simp: processValueFromString_def split: sum.splits)
  have 5: "\<exists>n. ParseInt (Getenv w e) = Inr n \<and> Value (fs' ! i) = VInt64 n"
    if "kind_of (Value (fs0 ! i)) = Int64K"
    using pv that kd by (auto simp: processValueFromString_def split: sum.splits)
  have 6: "\<exists>s. Value (fs' ! i) = VString s
             \<and> (Getenv w e \<noteq> ''__TMP_DIR__'' \<and> \<not> MatchString (Getenv w e) \<longrightarrow> s = Getenv w e)"
    if "kind_of (Value (fs0 ! i)) = StringK"
    using processValueFromString_string [OF _ pv] that kd by simp
  have 7: "Value (fs' ! i) = VSlice (xs @ Split (Getenv w e) (CHR '',''))"
    if "Value (fs ! i) = VSlice xs" for xs
    using pv that env(2) by (auto simp: processValueFromString_def Append_def)
  from 1 2 3 4 5 6 7 show ?thesis by blast
qed

theorem environment_overrides_witness:
  "IntoObject example_world
      (Pointer (VStruct [StructField ''F'' [(''default'', ''d''), (''env'', ''B'')] (VString []),
                         StructField ''Count'' [(''default'', ''1''), (''env'', ''N'')] (VInt 0),
                         StructField ''Debug'' [(''default'', ''false''), (''env'', ''DBG'')] (VBool False)]))
      [''A''] []
     = (NoError,
        Pointer (VStruct [StructField ''F'' [(''default'', ''d''), (''env'', ''B'')] (VString ''x''),
                          StructField ''Count'' [(''default'', ''1''), (''env'', ''N'')] (VInt 42),
                          StructField ''Debug'' [(''default'', ''false''), (''env'', ''DBG'')] (VBool True)]),
        example_world)
   \<and> ParseInt ''42'' = Inr 42 \<and> ParseBool ''true'' = Inr True"
proof -
  let ?start = "[StructField ''F'' [(''default'', ''d''), (''env'', ''B'')] (VString []),
               StructField ''Count'' [(''default'', ''1''), (''env'', ''N'')] (VInt 0),
               StructField ''Debug'' [(''default'', ''false''), (''env'', ''DBG'')] (VBool False)]"
  let ?mid = "[StructField ''F'' [(''default'', ''d''), (''env'', ''B'')] (VString ''fromA''),
              StructField ''Count'' [(''default'', ''1''), (''env'', ''N'')] (VInt 1),
              StructField ''Debug'' [(''default'', ''false''), (''env'', ''DBG'')] (VBool False)]"
  let ?final = "[StructField ''F'' [(''default'', ''d''), (''env'', ''B'')] (VString ''x''),
               StructField ''Count'' [(''default'', ''1''), (''env'', ''N'')] (VInt 42),
               StructField ''Debug'' [(''default'', ''false''), (''env'', ''DBG'')] (VBool True)]"
  have pre: "before_env example_world (Pointer (VStruct ?start)) [''A''] []
      = (NoError, Pointer (VStruct ?mid), example_world)"
    by (simp add: before_env_def eval_defs yaml_eval_defs)
  have pass: "load_fields example_world ?mid ''env'' [] = (NoError, ?final, example_world)"
    by (simp add: eval_defs)
  have i: "1 < length ?start" by simp
  have k: "kind_of (Value (?start ! 1)) \<noteq> StructK" by simp
  have e: "Lookup (Tag (?start ! 1)) EnvVarTag = (''N'', True)" by (simp add: Lookup_def EnvVarTag_def)
  have g: "Getenv example_world ''N'' \<noteq> []" by (simp add: Getenv_def example_world_def)
  have "ParseInt ''42'' = Inr 42 \<and> ParseBool ''true'' = Inr True"
    by (simp add: eval_defs)
  with environment_overrides [OF pre pass i k e g] show ?thesis by simp
qed

text \<open>
  C4 (the code departs from the claim): a sequence-of-string field declares the default
  \<open>x\<close> and a variable that is set to \<open>a,b,c\<close>. The value after \<open>IntoObject\<close> is not
  the parsed environment value, the sequence \<open>a\<close>, \<open>b\<close>, \<open>c\<close>: the environment
  pass does not override what the default pass assigned, it appends to it.
\<close>

theorem environment_appends_to_slice:
  "IntoObject example_world
      (Pointer (VStruct [StructField ''S'' [(''default'', ''x''), (''env'', ''S'')] (VSlice [])])) [] []
     = (NoError,
        Pointer (VStruct [StructField ''S'' [(''default'', ''x''), (''env'', ''S'')]
          (VSlice [''x'', ''a'', ''b'', ''c''])]),
        example_world)
   \<and> Getenv example_world ''S'' = ''a,b,c''
   \<and> Split ''a,b,c'' (CHR '','') = [''a'', ''b'', ''c'']
   \<and> VSlice [''x'', ''a'', ''b'', ''c''] \<noteq> VSlice [''a'', ''b'', ''c'']"
  by (simp add: eval_defs)

end
